theory Spec2Isabelle
  imports Complex_Main
begin

section \<open>Values, errors and the heap\<close>

text \<open>
  The routines of \<^verbatim>\<open>routines.cpp\<close> work on \<^verbatim>\<open>double\<close> values and on arrays reached
  through raw pointers. A \<^verbatim>\<open>double\<close> is modelled as a real number, and infinities
  and NaN are outside the model. Rounding is modelled where a statement is about the
  exact value a routine returns, which is the case for the index mappers: there every
  arithmetic operation is followed by the rounding of binary64. Everywhere else the
  statements are about which expression is computed, and the arithmetic is that of the
  reals. An \<^verbatim>\<open>int\<close> is modelled as an integer; no claim below depends on 32-bit
  overflow.

  Memory is an explicit heap. An address names a whole block (the pointer returned by
  one allocation); a cell of a block holds a double, a pointer to another block, or the
  indeterminate value that \<^verbatim>\<open>new T[n]\<close> leaves in a fresh array of scalars. A block
  remembers which allocation function made it, so that a release through the wrong
  operator is visible. Addresses are positions in the list of blocks and are never
  reused: a released block leaves \<open>None\<close> behind, which makes a second release and a
  read through a dangling pointer visible as well.
\<close>

type_synonym addr = nat

datatype val = Dbl real | Ptr addr | Indet

datatype origin = ScalarNew | ArrayNew | Calloc

record block =
  made_by :: origin
  cells :: "val list"

record heap =
  blocks :: "block option list"
  exhausted :: bool

text \<open>
  Every way in which a routine does not return normally is a value of \<open>error\<close>:
  the two \<^verbatim>\<open>exit(-1)\<close> paths of the source with what they print, the exceptions of
  \<^verbatim>\<open>new[]\<close>, and the undefined behaviour of C++ that the routines can run into.
\<close>

datatype error =
    ExitAlloc int
  | ExitLog10Spline real real
  | BadAlloc
  | BadArrayNewLength
  | NullDereference
  | DanglingPointer addr
  | OutOfBounds addr nat
  | IndeterminateRead addr nat
  | TypeMismatch addr nat
  | InvalidDelete addr
  | MismatchedDelete addr

definition and_then :: "error + 'a \<Rightarrow> ('a \<Rightarrow> error + 'b) \<Rightarrow> error + 'b" where
  "and_then r f = (case r of Inl e \<Rightarrow> Inl e | Inr v \<Rightarrow> f v)"

text \<open>
  \<^verbatim>\<open>for(int i = i0; ...; i++) body\<close> running \<open>c\<close> more times from index \<open>i\<close>, threading
  the state; an error in the body ends the loop.
\<close>

fun for_loop :: "nat \<Rightarrow> nat \<Rightarrow> (nat \<Rightarrow> 's \<Rightarrow> error + 's) \<Rightarrow> 's \<Rightarrow> error + 's" where
  "for_loop i 0 body s = Inr s"
| "for_loop i (Suc c) body s =
     (case body i s of Inl e \<Rightarrow> Inl e | Inr s' \<Rightarrow> for_loop (Suc i) c body s')"

definition lookup :: "heap \<Rightarrow> addr \<Rightarrow> block option" where
  "lookup h a = (if a < length (blocks h) then blocks h ! a else None)"

definition load :: "heap \<Rightarrow> addr \<Rightarrow> nat \<Rightarrow> error + val" where
  "load h a i =
     (case lookup h a of
        None \<Rightarrow> Inl (DanglingPointer a)
      | Some b \<Rightarrow> if i < length (cells b) then Inr (cells b ! i) else Inl (OutOfBounds a i))"

definition load_dbl :: "heap \<Rightarrow> addr \<Rightarrow> nat \<Rightarrow> error + real" where
  "load_dbl h a i =
     (case load h a i of
        Inl e \<Rightarrow> Inl e
      | Inr (Dbl v) \<Rightarrow> Inr v
      | Inr (Ptr p) \<Rightarrow> Inl (TypeMismatch a i)
      | Inr Indet \<Rightarrow> Inl (IndeterminateRead a i))"

definition load_ptr :: "heap \<Rightarrow> addr \<Rightarrow> nat \<Rightarrow> error + addr" where
  "load_ptr h a i =
     (case load h a i of
        Inl e \<Rightarrow> Inl e
      | Inr (Ptr p) \<Rightarrow> Inr p
      | Inr (Dbl v) \<Rightarrow> Inl (TypeMismatch a i)
      | Inr Indet \<Rightarrow> Inl (IndeterminateRead a i))"

definition store :: "heap \<Rightarrow> addr \<Rightarrow> nat \<Rightarrow> val \<Rightarrow> error + heap" where
  "store h a i v =
     (case lookup h a of
        None \<Rightarrow> Inl (DanglingPointer a)
      | Some b \<Rightarrow>
          if i < length (cells b)
          then Inr (h\<lparr>blocks := (blocks h)[a := Some (b\<lparr>cells := (cells b)[i := v]\<rparr>)]\<rparr>)
          else Inl (OutOfBounds a i))"

text \<open>\<^verbatim>\<open>a[i][j]\<close> read as a double, and \<^verbatim>\<open>a[i][j] = v\<close>, through a \<^verbatim>\<open>double **\<close>.\<close>

definition load2 :: "heap \<Rightarrow> addr \<Rightarrow> nat \<Rightarrow> nat \<Rightarrow> error + real" where
  "load2 h a i j = and_then (load_ptr h a i) (\<lambda>r. load_dbl h r j)"

definition store2 :: "heap \<Rightarrow> addr \<Rightarrow> nat \<Rightarrow> nat \<Rightarrow> real \<Rightarrow> error + heap" where
  "store2 h a i j v = and_then (load_ptr h a i) (\<lambda>r. store h r j (Dbl v))"

text \<open>
  \<^verbatim>\<open>new T[n]\<close> for a scalar type: a negative length throws
  \<^verbatim>\<open>std::bad_array_new_length\<close>, an exhausted heap throws \<^verbatim>\<open>std::bad_alloc\<close>, and the
  cells of the fresh array are indeterminate.
\<close>

definition new_array :: "int \<Rightarrow> heap \<Rightarrow> error + (addr \<times> heap)" where
  "new_array n h =
     (if n < 0 then Inl BadArrayNewLength
      else if exhausted h then Inl BadAlloc
      else Inr (length (blocks h),
                h\<lparr>blocks := blocks h @ [Some \<lparr>made_by = ArrayNew, cells = replicate (nat n) Indet\<rparr>]\<rparr>))"

text \<open>
  \<^verbatim>\<open>calloc(n, sizeof(double))\<close>: the null pointer (\<open>None\<close>) when the request cannot be
  met, which includes a negative \<open>n\<close> (it converts to a huge \<^verbatim>\<open>size_t\<close>); otherwise a
  fresh block of zeros.
\<close>

definition calloc :: "int \<Rightarrow> heap \<Rightarrow> addr option \<times> heap" where
  "calloc n h =
     (if n < 0 \<or> exhausted h then (None, h)
      else (Some (length (blocks h)),
            h\<lparr>blocks := blocks h @ [Some \<lparr>made_by = Calloc, cells = replicate (nat n) (Dbl 0)\<rparr>]\<rparr>))"

text \<open>\<^verbatim>\<open>delete[] p\<close> and \<^verbatim>\<open>delete p\<close>: each releases only what its own \<^verbatim>\<open>new\<close> made.\<close>

definition delete_array :: "addr \<Rightarrow> heap \<Rightarrow> error + heap" where
  "delete_array a h =
     (case lookup h a of
        None \<Rightarrow> Inl (InvalidDelete a)
      | Some b \<Rightarrow>
          if made_by b = ArrayNew then Inr (h\<lparr>blocks := (blocks h)[a := None]\<rparr>)
          else Inl (MismatchedDelete a))"

definition delete_scalar :: "addr \<Rightarrow> heap \<Rightarrow> error + heap" where
  "delete_scalar a h =
     (case lookup h a of
        None \<Rightarrow> Inl (InvalidDelete a)
      | Some b \<Rightarrow>
          if made_by b = ScalarNew then Inr (h\<lparr>blocks := (blocks h)[a := None]\<rparr>)
          else Inl (MismatchedDelete a))"

text \<open>What a pointer refers to, read off the heap: an array of doubles, a matrix.\<close>

definition dbl_array :: "heap \<Rightarrow> addr \<Rightarrow> real list \<Rightarrow> bool" where
  "dbl_array h a xs =
     (case lookup h a of
        None \<Rightarrow> False
      | Some b \<Rightarrow> length xs \<le> length (cells b) \<and> take (length xs) (cells b) = map Dbl xs)"

definition row_of :: "heap \<Rightarrow> val \<Rightarrow> real list \<Rightarrow> bool" where
  "row_of h c xs = (case c of Ptr r \<Rightarrow> dbl_array h r xs | _ \<Rightarrow> False)"

definition matrix_at :: "heap \<Rightarrow> addr \<Rightarrow> real list list \<Rightarrow> bool" where
  "matrix_at h a M =
     (case lookup h a of
        None \<Rightarrow> False
      | Some b \<Rightarrow> length M \<le> length (cells b) \<and>
                  list_all2 (row_of h) (take (length M) (cells b)) M)"

definition live :: "heap \<Rightarrow> addr set" where
  "live h = {a. lookup h a \<noteq> None}"


section \<open>Binary64 rounding\<close>

text \<open>
  The arithmetic of \<^verbatim>\<open>double\<close> on the usual platforms: the exact result of an operation
  is rounded to the nearest number with 53 significant bits, a tie going to the even
  significand. \<open>rne\<close> rounds a real to the nearest integer, ties to even; \<open>expo x\<close> is the
  binary exponent of \<open>x\<close>; \<open>fl x\<close> is \<open>x\<close> rounded to 53 bits; \<open>unit_roundoff\<close> is the
  largest relative error of one rounding. The exponent range is unbounded here: overflow
  and the subnormal numbers are outside the model, as are NaN, the infinities and the
  sign of zero.
\<close>

definition rne :: "real \<Rightarrow> int" where
  "rne x = (let f = \<lfloor>x\<rfloor>; r = x - of_int f in
            if r < 1 / 2 then f else if 1 / 2 < r then f + 1
            else if even f then f else f + 1)"

definition expo :: "real \<Rightarrow> int" where
  "expo x = \<lfloor>log 2 \<bar>x\<bar>\<rfloor>"

definition fl :: "real \<Rightarrow> real" where
  "fl x = (if x = 0 then 0
           else of_int (rne (x / 2 powi (expo x - 52))) * 2 powi (expo x - 52))"



section \<open>Index-to-value mappers\<close>




section \<open>Allocation\<close>

definition calloc_double_array :: "int \<Rightarrow> heap \<Rightarrow> error + (addr \<times> heap)" where
  "calloc_double_array n h =
     (case calloc n h of
        (None, h') \<Rightarrow> Inl (ExitAlloc n)
      | (Some f, h') \<Rightarrow> Inr (f, h'))"

definition two_dimensional_array :: "int \<Rightarrow> int \<Rightarrow> heap \<Rightarrow> error + (addr \<times> heap)" where
  "two_dimensional_array n l h =
     and_then (new_array n h) (\<lambda>(x, h1).
     and_then (for_loop 0 (nat n)
                 (\<lambda>i s. and_then (new_array l s) (\<lambda>(r, s'). store s' x i (Ptr r))) h1) (\<lambda>h2.
     and_then (for_loop 0 (nat n)
                 (\<lambda>i s. for_loop 0 (nat l) (\<lambda>j t. store2 t x i j 0) s) h2) (\<lambda>h3.
     Inr (x, h3))))"

definition deallocate_two_dimensional_array :: "addr \<Rightarrow> int \<Rightarrow> int \<Rightarrow> heap \<Rightarrow> error + heap" where
  "deallocate_two_dimensional_array x n l h =
     and_then (for_loop 0 (nat n)
                 (\<lambda>i s. and_then (load_ptr s x i) (\<lambda>r. delete_array r s)) h) (\<lambda>h1.
     delete_scalar x h1)"

definition three_dimensional_array :: "int \<Rightarrow> int \<Rightarrow> int \<Rightarrow> heap \<Rightarrow> error + (addr \<times> heap)" where
  "three_dimensional_array n l m h =
     and_then (new_array n h) (\<lambda>(x, h1).
     and_then (for_loop 0 (nat n)
       (\<lambda>i s.
          and_then (new_array l s) (\<lambda>(xi, s1).
          and_then (store s1 x i (Ptr xi)) (\<lambda>s2.
          for_loop 0 (nat l)
            (\<lambda>j t.
               and_then (new_array m t) (\<lambda>(xij, t1).
               and_then (load_ptr t1 x i) (\<lambda>a.
               store t1 a j (Ptr xij)))) s2))) h1) (\<lambda>h2.
     Inr (x, h2)))"

definition deallocate_three_dimensional_array ::
    "addr \<Rightarrow> int \<Rightarrow> int \<Rightarrow> int \<Rightarrow> heap \<Rightarrow> error + heap" where
  "deallocate_three_dimensional_array x n l m h =
     and_then (for_loop 0 (nat n)
       (\<lambda>i s.
          and_then (for_loop 0 (nat l)
            (\<lambda>j t.
               and_then (load_ptr t x i) (\<lambda>a.
               and_then (load_ptr t a j) (\<lambda>b.
               delete_array b t))) s) (\<lambda>s1.
          and_then (load_ptr s1 x i) (\<lambda>a.
          delete_array a s1))) h) (\<lambda>h1.
     delete_scalar x h1)"

text \<open>
  \<^verbatim>\<open>four_dimensional_array\<close>: the innermost loop of the source runs \<^verbatim>\<open>k\<close> below \<^verbatim>\<open>p\<close>,
  not below \<^verbatim>\<open>m\<close>, and so does the innermost loop of the deallocator.
\<close>

definition four_dimensional_array ::
    "int \<Rightarrow> int \<Rightarrow> int \<Rightarrow> int \<Rightarrow> heap \<Rightarrow> error + (addr \<times> heap)" where
  "four_dimensional_array n l m p h =
     and_then (new_array n h) (\<lambda>(x, h1).
     and_then (for_loop 0 (nat n)
       (\<lambda>i s.
          and_then (new_array l s) (\<lambda>(xi, s1).
          and_then (store s1 x i (Ptr xi)) (\<lambda>s2.
          for_loop 0 (nat l)
            (\<lambda>j t.
               and_then (new_array m t) (\<lambda>(xij, t1).
               and_then (load_ptr t1 x i) (\<lambda>a.
               and_then (store t1 a j (Ptr xij)) (\<lambda>t2.
               for_loop 0 (nat p)
                 (\<lambda>k u.
                    and_then (new_array p u) (\<lambda>(leaf, u1).
                    and_then (load_ptr u1 x i) (\<lambda>a.
                    and_then (load_ptr u1 a j) (\<lambda>b.
                    store u1 b k (Ptr leaf))))) t2)))) s2))) h1) (\<lambda>h2.
     Inr (x, h2)))"

definition deallocate_four_dimensional_array ::
    "addr \<Rightarrow> int \<Rightarrow> int \<Rightarrow> int \<Rightarrow> int \<Rightarrow> heap \<Rightarrow> error + heap" where
  "deallocate_four_dimensional_array x n l m p h =
     and_then (for_loop 0 (nat n)
       (\<lambda>i s.
          and_then (for_loop 0 (nat l)
            (\<lambda>j t.
               and_then (for_loop 0 (nat p)
                 (\<lambda>k u.
                    and_then (load_ptr u x i) (\<lambda>a.
                    and_then (load_ptr u a j) (\<lambda>b.
                    and_then (load_ptr u b k) (\<lambda>c.
                    delete_array c u)))) t) (\<lambda>t1.
               and_then (load_ptr t1 x i) (\<lambda>a.
               and_then (load_ptr t1 a j) (\<lambda>b.
               delete_array b t1)))) s) (\<lambda>s1.
          and_then (load_ptr s1 x i) (\<lambda>a.
          delete_array a s1))) h) (\<lambda>h1.
     delete_scalar x h1)"


section \<open>Splines\<close>

text \<open>
  Modelled from the spec: the GSL interpolation library (\<^verbatim>\<open>gsl_spline_alloc\<close>,
  \<^verbatim>\<open>gsl_interp_accel_alloc\<close>, \<^verbatim>\<open>gsl_spline_init\<close>) is not part of the sources. The
  spec treats it as an opaque dependency that constructs an interpolant from the
  (abscissa, ordinate) pairs and a fresh accelerator. The model keeps of an interpolant
  the samples it was built from, and lets every call of the library return.
\<close>

record gsl_spline =
  spline_size :: nat
  spline_x :: "real list"
  spline_y :: "real list"

record gsl_interp_accel =
  cache :: nat

definition gsl_spline_alloc :: "int \<Rightarrow> gsl_spline" where
  "gsl_spline_alloc n = \<lparr>spline_size = nat n, spline_x = [], spline_y = []\<rparr>"

definition gsl_interp_accel_alloc :: gsl_interp_accel where
  "gsl_interp_accel_alloc = \<lparr>cache = 0\<rparr>"

definition load_doubles :: "heap \<Rightarrow> addr \<Rightarrow> nat \<Rightarrow> error + real list" where
  "load_doubles h a n =
     for_loop 0 n (\<lambda>i acc. and_then (load_dbl h a i) (\<lambda>v. Inr (acc @ [v]))) []"

definition gsl_spline_init ::
    "gsl_spline \<Rightarrow> addr \<Rightarrow> addr \<Rightarrow> int \<Rightarrow> heap \<Rightarrow> error + gsl_spline" where
  "gsl_spline_init spline xa ya n h =
     and_then (load_doubles h xa (nat n)) (\<lambda>xs.
     and_then (load_doubles h ya (nat n)) (\<lambda>ys.
     Inr (spline\<lparr>spline_x := xs, spline_y := ys\<rparr>)))"

text \<open>
  \<^verbatim>\<open>create_log10_spline\<close>. The evaluator \<^verbatim>\<open>func\<close> is a function of the sample point and
  the parameter block; the three reference parameters \<^verbatim>\<open>log10y\<close>, \<^verbatim>\<open>spline\<close> and
  \<^verbatim>\<open>acc\<close> are returned. \<^verbatim>\<open>pow(10.0, v)\<close> is \<open>10 powr v\<close> and \<^verbatim>\<open>log10\<close> is \<open>log 10\<close>,
  called on positive values only.
\<close>

definition create_log10_spline ::
    "(real \<Rightarrow> 'p \<Rightarrow> real) \<Rightarrow> addr \<Rightarrow> int \<Rightarrow> 'p \<Rightarrow> heap
       \<Rightarrow> error + (addr \<times> gsl_spline \<times> gsl_interp_accel \<times> heap)" where
  "create_log10_spline func log10x n params h =
     and_then (calloc_double_array n h) (\<lambda>(log10y, h1).
     and_then (for_loop 0 (nat n)
       (\<lambda>i s.
          and_then (load_dbl s log10x i) (\<lambda>v.
          let x = 10 powr v; y = func x params in
          if y \<le> 0 then Inl (ExitLog10Spline x y)
          else store s log10y i (Dbl (log 10 y)))) h1) (\<lambda>h2.
     let spline = gsl_spline_alloc n; acc = gsl_interp_accel_alloc in
     and_then (gsl_spline_init spline log10x log10y n h2) (\<lambda>spline'.
     Inr (log10y, spline', acc, h2))))"


section \<open>Array extrema\<close>

text \<open>
  Modelled from the spec: \<^verbatim>\<open>gsl_stats_max\<close> and \<^verbatim>\<open>gsl_stats_min\<close> belong to the GNU
  Scientific Library and are not part of the sources. The spec says they return the
  maximum and the minimum element of a non-empty array; the model is the loop that
  \<^verbatim>\<open>array_max\<close> and \<^verbatim>\<open>array_min\<close> keep in a comment (start from \<^verbatim>\<open>x[0]\<close>, fold
  \<^verbatim>\<open>GSL_MAX_DBL\<close> or \<^verbatim>\<open>GSL_MIN_DBL\<close> over the elements from index 1), with the
  library's stride. The length arrives as a \<^verbatim>\<open>size_t\<close>.
\<close>

definition gsl_stats_max :: "addr \<Rightarrow> nat \<Rightarrow> nat \<Rightarrow> heap \<Rightarrow> error + real" where
  "gsl_stats_max data stride n h =
     and_then (load_dbl h data 0) (\<lambda>m0.
     for_loop 1 (n - 1)
       (\<lambda>i m. and_then (load_dbl h data (i * stride)) (\<lambda>xi. Inr (max m xi))) m0)"

definition gsl_stats_min :: "addr \<Rightarrow> nat \<Rightarrow> nat \<Rightarrow> heap \<Rightarrow> error + real" where
  "gsl_stats_min data stride n h =
     and_then (load_dbl h data 0) (\<lambda>m0.
     for_loop 1 (n - 1)
       (\<lambda>i m. and_then (load_dbl h data (i * stride)) (\<lambda>xi. Inr (min m xi))) m0)"

definition size_t_of_int :: "int \<Rightarrow> nat" where
  "size_t_of_int n = nat (n mod 2 ^ 64)"

definition array_max :: "addr \<Rightarrow> int \<Rightarrow> heap \<Rightarrow> error + real" where
  "array_max x n h = gsl_stats_max x 1 (size_t_of_int n) h"

definition array_min :: "addr \<Rightarrow> int \<Rightarrow> heap \<Rightarrow> error + real" where
  "array_min x n h = gsl_stats_min x 1 (size_t_of_int n) h"


section \<open>Vector and tensor algebra\<close>

text \<open>
  Every right-hand side of the two cross product routines has the shape
  \<^verbatim>\<open>x[i]*y[j] - x[j]*y[i]\<close>, read from memory when the statement runs.
\<close>

definition cross_term :: "heap \<Rightarrow> addr \<Rightarrow> addr \<Rightarrow> nat \<Rightarrow> nat \<Rightarrow> error + real" where
  "cross_term h x y i j =
     and_then (load_dbl h x i) (\<lambda>xi.
     and_then (load_dbl h y j) (\<lambda>yj.
     and_then (load_dbl h x j) (\<lambda>xj.
     and_then (load_dbl h y i) (\<lambda>yi.
     Inr (xi * yj - xj * yi)))))"

text \<open>
  \<^verbatim>\<open>vector_cross_product\<close> does not test what \<^verbatim>\<open>calloc\<close> returns: with a null pointer
  the first assignment dereferences it.
\<close>

definition vector_cross_product :: "addr \<Rightarrow> addr \<Rightarrow> int \<Rightarrow> heap \<Rightarrow> error + (addr \<times> heap)" where
  "vector_cross_product x y ndim h =
     (if ndim = 2 then
        (case calloc 1 h of
           (None, h1) \<Rightarrow> Inl NullDereference
         | (Some cp, h1) \<Rightarrow>
             and_then (cross_term h1 x y 0 1) (\<lambda>v0.
             and_then (store h1 cp 0 (Dbl v0)) (\<lambda>h2.
             Inr (cp, h2))))
      else
        (case calloc 3 h of
           (None, h1) \<Rightarrow> Inl NullDereference
         | (Some cp, h1) \<Rightarrow>
             and_then (cross_term h1 x y 1 2) (\<lambda>v0.
             and_then (store h1 cp 0 (Dbl v0)) (\<lambda>h2.
             and_then (cross_term h2 x y 2 0) (\<lambda>v1.
             and_then (store h2 cp 1 (Dbl v1)) (\<lambda>h3.
             and_then (cross_term h3 x y 0 1) (\<lambda>v2.
             and_then (store h3 cp 2 (Dbl v2)) (\<lambda>h4.
             Inr (cp, h4)))))))))"

definition vector_cross_product_in_place ::
    "addr \<Rightarrow> addr \<Rightarrow> addr \<Rightarrow> int \<Rightarrow> heap \<Rightarrow> error + heap" where
  "vector_cross_product_in_place r x y ndim h =
     (if ndim = 2 then
        and_then (cross_term h x y 0 1) (\<lambda>v0.
        store h r 0 (Dbl v0))
      else
        and_then (cross_term h x y 1 2) (\<lambda>v0.
        and_then (store h r 0 (Dbl v0)) (\<lambda>h2.
        and_then (cross_term h2 x y 2 0) (\<lambda>v1.
        and_then (store h2 r 1 (Dbl v1)) (\<lambda>h3.
        and_then (cross_term h3 x y 0 1) (\<lambda>v2.
        store h3 r 2 (Dbl v2)))))))"

text \<open>
  \<^verbatim>\<open>tensor_transformation\<close>: the two accumulators \<^verbatim>\<open>x\<close> and \<^verbatim>\<open>y\<close> are the states of the
  two inner loops, which only read the heap.
\<close>

definition tensor_transformation ::
    "addr \<Rightarrow> addr \<Rightarrow> int \<Rightarrow> heap \<Rightarrow> error + (addr \<times> heap)" where
  "tensor_transformation a sigma ndim h =
     and_then (two_dimensional_array ndim ndim h) (\<lambda>(result_A, h1).
     and_then (for_loop 0 (nat ndim)
       (\<lambda>n s. for_loop 0 (nat ndim)
          (\<lambda>m t.
             and_then (for_loop 0 (nat ndim)
               (\<lambda>j x.
                  and_then (for_loop 0 (nat ndim)
                    (\<lambda>i y.
                       and_then (load2 t a m i) (\<lambda>ami.
                       and_then (load2 t sigma j i) (\<lambda>sji.
                       Inr (y + ami * sji)))) 0) (\<lambda>y.
                  and_then (load2 t a n j) (\<lambda>anj.
                  Inr (x + anj * y)))) 0) (\<lambda>x.
             store2 t result_A n m x)) s) h1) (\<lambda>h2.
     Inr (result_A, h2)))"

text \<open>
  \<^verbatim>\<open>matrix_determinant\<close>: the second branch adds and subtracts in the three steps of the
  source.
\<close>

definition matrix_determinant :: "addr \<Rightarrow> int \<Rightarrow> heap \<Rightarrow> error + real" where
  "matrix_determinant a ndim h =
     (if ndim = 2 then
        and_then (load2 h a 0 0) (\<lambda>a00.
        and_then (load2 h a 1 1) (\<lambda>a11.
        and_then (load2 h a 1 0) (\<lambda>a10.
        and_then (load2 h a 0 1) (\<lambda>a01.
        Inr (a00 * a11 - a10 * a01)))))
      else
        and_then (load2 h a 0 0) (\<lambda>a00.
        and_then (load2 h a 1 1) (\<lambda>a11.
        and_then (load2 h a 2 2) (\<lambda>a22.
        and_then (load2 h a 0 1) (\<lambda>a01.
        and_then (load2 h a 1 2) (\<lambda>a12.
        and_then (load2 h a 2 0) (\<lambda>a20.
        and_then (load2 h a 0 2) (\<lambda>a02.
        and_then (load2 h a 1 0) (\<lambda>a10.
        and_then (load2 h a 2 1) (\<lambda>a21.
        let det0 = 0;
            det1 = det0 + (a00 * a11 * a22 + a01 * a12 * a20);
            det2 = det1 + (a02 * a10 * a21 - a02 * a11 * a20);
            det3 = det2 - (a01 * a10 * a22 + a00 * a12 * a21)
        in Inr det3))))))))))"


section \<open>The shape of a freshly allocated two-dimensional array\<close>

text \<open>
  A specification device, not a routine of the source: the heap \<open>h\<close> extended by one
  array of pointers with cells \<open>tp\<close> and, behind it, \<open>n\<close> row arrays with cells
  \<open>row 0\<close>, ..., \<open>row (n - 1)\<close>, all made by \<^verbatim>\<open>new[]\<close>. The states that
  \<^verbatim>\<open>two_dimensional_array\<close> and \<^verbatim>\<open>tensor_transformation\<close> run through have this shape.
\<close>

definition with_rows :: "heap \<Rightarrow> val list \<Rightarrow> (nat \<Rightarrow> val list) \<Rightarrow> nat \<Rightarrow> heap" where
  "with_rows h tp row n =
     h\<lparr>blocks := blocks h @ Some \<lparr>made_by = ArrayNew, cells = tp\<rparr>
                   # map (\<lambda>i. Some \<lparr>made_by = ArrayNew, cells = row i\<rparr>) [0..<n]\<rparr>"


section \<open>Rounding: error of one operation, and evaluation\<close>


lemma powr_powi_2: "(2::real) powr real_of_int k = 2 powi k"
  by (rule powr_real_of_int') simp_all


lemma expo_eq:
  assumes "2 powi e \<le> \<bar>x\<bar>" and "\<bar>x\<bar> < 2 powi (e + 1)"
  shows "expo x = e"
proof -
  have "0 < (2::real) powi e" by (simp add: zero_less_power_int)
  then have pos: "0 < \<bar>x\<bar>" using assms(1) by linarith
  have "2 powr real_of_int e \<le> \<bar>x\<bar> \<and> \<bar>x\<bar> < 2 powr real_of_int (e + 1)"
    using assms by (simp only: powr_powi_2)
  moreover have "(\<lfloor>log 2 \<bar>x\<bar>\<rfloor> = e) =
      (2 powr real_of_int e \<le> \<bar>x\<bar> \<and> \<bar>x\<bar> < 2 powr real_of_int (e + 1))"
    by (rule floor_log_eq_powr_iff [OF pos]) simp
  ultimately have "\<lfloor>log 2 \<bar>x\<bar>\<rfloor> = e"
    by blast
  then show ?thesis by (simp add: expo_def)
qed

lemma fl_eval:
  assumes "2 powi e \<le> \<bar>x\<bar>" and "\<bar>x\<bar> < 2 powi (e + 1)"
  shows "fl x = of_int (rne (x / 2 powi (e - 52))) * 2 powi (e - 52)"
proof -
  have "0 < (2::real) powi e" by (simp add: zero_less_power_int)
  then have "0 < \<bar>x\<bar>" using assms(1) by linarith
  then have "x \<noteq> 0" by simp
  then show ?thesis by (simp add: fl_def expo_eq [OF assms])
qed

lemma fl_zero [simp]: "fl 0 = 0"
  by (simp add: fl_def)








lemma interpolation_rounded_first:
  "fl (fl (fl (fl (b - a) * 0) / C) + a) = fl a"
  by simp


lemma fl_one: "fl 1 = 1"
  using fl_eval [of 0 1] by (simp add: rne_def)


section \<open>Index mappers: the endpoints\<close>




section \<open>Facts about the heap operations\<close>

lemma and_then_simps [simp]:
  "and_then (Inl e) f = Inl e"
  "and_then (Inr v) f = f v"
  by (simp_all add: and_then_def)

lemma lookup_append [simp]:
  "lookup (h\<lparr>blocks := blocks h @ [b]\<rparr>) a = (if a = length (blocks h) then b else lookup h a)"
  by (auto simp: lookup_def nth_append)

lemma lookup_update [simp]:
  "lookup (h\<lparr>blocks := (blocks h)[a := b]\<rparr>) a' =
     (if a' = a \<and> a < length (blocks h) then b else lookup h a')"
  by (auto simp: lookup_def)

lemma lookup_fresh [simp]: "lookup h (length (blocks h)) = None"
  by (simp add: lookup_def)

lemma lookup_Some_less: "lookup h a = Some b \<Longrightarrow> a < length (blocks h)"
  by (simp add: lookup_def split: if_splits)

lemma dbl_array_load:
  assumes "dbl_array h a xs" and "i < length xs"
  shows "load_dbl h a i = Inr (xs ! i)"
proof -
  from assms(1) obtain b where b: "lookup h a = Some b" "length xs \<le> length (cells b)"
    "take (length xs) (cells b) = map Dbl xs"
    by (auto simp: dbl_array_def split: option.splits)
  have "cells b ! i = take (length xs) (cells b) ! i" using assms(2) by simp
  also have "\<dots> = Dbl (xs ! i)" using b(3) assms(2) by simp
  finally show ?thesis using b assms(2) by (simp add: load_dbl_def load_def)
qed

lemma matrix_at_row:
  assumes "matrix_at h a M" and "i < length M"
  shows "\<exists>r. load_ptr h a i = Inr r \<and> dbl_array h r (M ! i)"
proof -
  from assms(1) obtain b where b: "lookup h a = Some b" "length M \<le> length (cells b)"
    "list_all2 (row_of h) (take (length M) (cells b)) M"
    by (auto simp: matrix_at_def split: option.splits)
  from b(2,3) assms(2) have "row_of h (cells b ! i) (M ! i)"
    by (auto simp: list_all2_conv_all_nth)
  then obtain r where "cells b ! i = Ptr r" "dbl_array h r (M ! i)"
    by (auto simp: row_of_def split: val.splits)
  then show ?thesis using b assms(2) by (simp add: load_ptr_def load_def)
qed

lemma matrix_at_load2:
  assumes "matrix_at h a M" and "i < length M" and "j < length (M ! i)"
  shows "load2 h a i j = Inr (M ! i ! j)"
  using matrix_at_row [OF assms(1,2)] assms(3)
  by (auto simp: load2_def dbl_array_load)

lemma dbl_array_cells:
  assumes "dbl_array h a xs"
  shows "\<exists>b. lookup h a = Some b \<and> length xs \<le> length (cells b)
             \<and> (\<forall>i<length xs. cells b ! i = Dbl (xs ! i))"
proof -
  from assms obtain b where b: "lookup h a = Some b" "length xs \<le> length (cells b)"
    "take (length xs) (cells b) = map Dbl xs"
    by (auto simp: dbl_array_def split: option.splits)
  have "cells b ! i = Dbl (xs ! i)" if "i < length xs" for i
  proof -
    have "cells b ! i = take (length xs) (cells b) ! i" using that by simp
    then show ?thesis using b(3) that by simp
  qed
  then show ?thesis using b by blast
qed

lemma load_dbl_append:
  "a < length (blocks h) \<Longrightarrow> load_dbl (h\<lparr>blocks := blocks h @ [b]\<rparr>) a i = load_dbl h a i"
  by (simp add: load_dbl_def load_def)

lemma store_defined:
  "lookup h a = Some b \<Longrightarrow> i < length (cells b) \<Longrightarrow>
   store h a i v = Inr (h\<lparr>blocks := (blocks h)[a := Some (b\<lparr>cells := (cells b)[i := v]\<rparr>)]\<rparr>)"
  by (simp add: store_def)

lemma load_dbl_update_other:
  "a \<noteq> r \<Longrightarrow> load_dbl (h\<lparr>blocks := (blocks h)[r := b]\<rparr>) a i = load_dbl h a i"
  by (simp add: load_dbl_def load_def)

lemma cross_term_value:
  assumes "dbl_array h x xs" and "dbl_array h y ys"
    and "i < length xs" "j < length xs" "i < length ys" "j < length ys"
  shows "cross_term h x y i j = Inr (xs ! i * ys ! j - xs ! j * ys ! i)"
  using assms by (simp add: cross_term_def dbl_array_load)

lemma cross_term_append:
  "x < length (blocks h) \<Longrightarrow> y < length (blocks h) \<Longrightarrow>
   cross_term (h\<lparr>blocks := blocks h @ [b]\<rparr>) x y i j = cross_term h x y i j"
  by (simp add: cross_term_def load_dbl_append)

lemma cross_term_update_other:
  "x \<noteq> r \<Longrightarrow> y \<noteq> r \<Longrightarrow>
   cross_term (h\<lparr>blocks := (blocks h)[r := b]\<rparr>) x y i j = cross_term h x y i j"
  by (simp add: cross_term_def load_dbl_update_other)

lemma dbl_array_less: "dbl_array h a xs \<Longrightarrow> a < length (blocks h)"
  by (auto simp: dbl_array_def lookup_def split: option.splits if_splits)

lemma vector_cross_product_2:
  assumes "\<not> exhausted h" and "dbl_array h x xs" and "dbl_array h y ys"
    and "2 \<le> length xs" and "2 \<le> length ys"
  shows "vector_cross_product x y 2 h =
           Inr (length (blocks h),
                h\<lparr>blocks := blocks h @
                   [Some \<lparr>made_by = Calloc, cells = [Dbl (xs ! 0 * ys ! 1 - xs ! 1 * ys ! 0)]\<rparr>]\<rparr>)"
proof -
  have lt: "x < length (blocks h)" "y < length (blocks h)"
    using assms(2,3) by (auto dest: dbl_array_less)
  have "0 < length xs" "Suc 0 < length xs" "0 < length ys" "Suc 0 < length ys"
    using assms(4,5) by auto
  then have ct: "cross_term h x y 0 (Suc 0) = Inr (xs ! 0 * ys ! 1 - xs ! 1 * ys ! 0)"
    using cross_term_value [OF assms(2,3), of 0 "Suc 0"] by simp
  show ?thesis
    using assms(1) lt
    by (simp add: vector_cross_product_def calloc_def cross_term_append ct store_defined)
qed

lemma vector_cross_product_3:
  assumes "ndim \<noteq> 2" and "\<not> exhausted h" and "dbl_array h x xs" and "dbl_array h y ys"
    and "3 \<le> length xs" and "3 \<le> length ys"
  shows "vector_cross_product x y ndim h =
           Inr (length (blocks h),
                h\<lparr>blocks := blocks h @
                   [Some \<lparr>made_by = Calloc,
                          cells = [Dbl (xs ! 1 * ys ! 2 - xs ! 2 * ys ! 1),
                                   Dbl (xs ! 2 * ys ! 0 - xs ! 0 * ys ! 2),
                                   Dbl (xs ! 0 * ys ! 1 - xs ! 1 * ys ! 0)]\<rparr>]\<rparr>)"
proof -
  have lt: "x < length (blocks h)" "y < length (blocks h)"
    using assms(3,4) by (auto dest: dbl_array_less)
  have ct: "cross_term h x y i j = Inr (xs ! i * ys ! j - xs ! j * ys ! i)"
    if "i < 3" "j < 3" for i j
    using that assms by (intro cross_term_value) auto
  show ?thesis
    using assms(1,2) lt
    by (simp add: vector_cross_product_def calloc_def cross_term_append
        cross_term_update_other ct store_defined numeral_3_eq_3)
qed


lemma in_place_2:
  assumes "dbl_array h x xs" and "dbl_array h y ys"
    and "2 \<le> length xs" and "2 \<le> length ys"
    and "lookup h r = Some b" and "1 \<le> length (cells b)"
  shows "vector_cross_product_in_place r x y 2 h =
           Inr (h\<lparr>blocks := (blocks h)
                  [r := Some (b\<lparr>cells := (cells b)
                     [0 := Dbl (xs ! 0 * ys ! 1 - xs ! 1 * ys ! 0)]\<rparr>)]\<rparr>)"
proof -
  have "0 < length xs" "Suc 0 < length xs" "0 < length ys" "Suc 0 < length ys"
    using assms(3,4) by auto
  then have ct: "cross_term h x y 0 (Suc 0) = Inr (xs ! 0 * ys ! 1 - xs ! 1 * ys ! 0)"
    using cross_term_value [OF assms(1,2), of 0 "Suc 0"] by simp
  have "0 < length (cells b)" using assms(6) by auto
  then show ?thesis
    using assms(5) by (simp add: vector_cross_product_in_place_def ct store_defined)
qed

lemma in_place_3:
  assumes "ndim \<noteq> 2" and "dbl_array h x xs" and "dbl_array h y ys"
    and "3 \<le> length xs" and "3 \<le> length ys"
    and "lookup h r = Some b" and "3 \<le> length (cells b)" and "r \<noteq> x" and "r \<noteq> y"
  shows "vector_cross_product_in_place r x y ndim h =
           Inr (h\<lparr>blocks := (blocks h)
                  [r := Some (b\<lparr>cells := (cells b)
                     [0 := Dbl (xs ! 1 * ys ! 2 - xs ! 2 * ys ! 1),
                      1 := Dbl (xs ! 2 * ys ! 0 - xs ! 0 * ys ! 2),
                      2 := Dbl (xs ! 0 * ys ! 1 - xs ! 1 * ys ! 0)]\<rparr>)]\<rparr>)"
proof -
  have ct: "cross_term h x y i j = Inr (xs ! i * ys ! j - xs ! j * ys ! i)"
    if "i < 3" "j < 3" for i j
    using that assms by (intro cross_term_value) auto
  have r: "r < length (blocks h)" using assms(6) by (rule lookup_Some_less)
  have len: "0 < length (cells b)" "Suc 0 < length (cells b)" "2 < length (cells b)"
    using assms(7) by auto
  show ?thesis
    using assms(1,6,8,9) r len
    by (simp add: vector_cross_product_in_place_def cross_term_update_other ct store_defined)
qed


section \<open>Determinant\<close>

text \<open>
  C3. For a 2 x 2 matrix \<open>a\<close>, \<open>matrix_determinant a 2\<close> is \<open>a00 * a11 - a10 * a01\<close>; for a
  3 x 3 matrix and every \<open>ndim\<close> other than 2, \<open>matrix_determinant a ndim\<close> is the
  cofactor expansion
  \<open>a00*a11*a22 + a01*a12*a20 + a02*a10*a21 - a02*a11*a20 - a01*a10*a22 - a00*a12*a21\<close>.
\<close>

theorem matrix_determinant_formulas:
  "(matrix_at h a [[a00, a01], [a10, a11]] \<longrightarrow>
      matrix_determinant a 2 h = Inr (a00 * a11 - a10 * a01))
   \<and> (ndim \<noteq> 2 \<and> matrix_at h b [[b00, b01, b02], [b10, b11, b12], [b20, b21, b22]] \<longrightarrow>
      matrix_determinant b ndim h =
        Inr (b00 * b11 * b22 + b01 * b12 * b20 + b02 * b10 * b21
             - b02 * b11 * b20 - b01 * b10 * b22 - b00 * b12 * b21))"
proof (intro conjI impI)
  assume m: "matrix_at h a [[a00, a01], [a10, a11]]"
  show "matrix_determinant a 2 h = Inr (a00 * a11 - a10 * a01)"
    by (simp add: matrix_determinant_def matrix_at_load2 [OF m])
next
  assume "ndim \<noteq> 2 \<and> matrix_at h b [[b00, b01, b02], [b10, b11, b12], [b20, b21, b22]]"
  then have n: "ndim \<noteq> 2"
    and m: "matrix_at h b [[b00, b01, b02], [b10, b11, b12], [b20, b21, b22]]" by simp_all
  show "matrix_determinant b ndim h =
        Inr (b00 * b11 * b22 + b01 * b12 * b20 + b02 * b10 * b21
             - b02 * b11 * b20 - b01 * b10 * b22 - b00 * b12 * b21)"
    using n by (simp add: matrix_determinant_def matrix_at_load2 [OF m])
qed



theorem matrix_determinant_witness:
  "matrix_determinant 0 2
     \<lparr>blocks = [Some \<lparr>made_by = ArrayNew, cells = [Ptr 1, Ptr 2]\<rparr>,
                Some \<lparr>made_by = ArrayNew, cells = [Dbl 1, Dbl 2]\<rparr>,
                Some \<lparr>made_by = ArrayNew, cells = [Dbl 3, Dbl 4]\<rparr>,
                Some \<lparr>made_by = ArrayNew, cells = [Ptr 4, Ptr 5, Ptr 6]\<rparr>,
                Some \<lparr>made_by = ArrayNew, cells = [Dbl 2, Dbl 0, Dbl 1]\<rparr>,
                Some \<lparr>made_by = ArrayNew, cells = [Dbl 1, Dbl 3, Dbl 0]\<rparr>,
                Some \<lparr>made_by = ArrayNew, cells = [Dbl 0, Dbl 1, Dbl 4]\<rparr>],
      exhausted = False\<rparr> = Inr (- 2)
   \<and> matrix_determinant 3 3
     \<lparr>blocks = [Some \<lparr>made_by = ArrayNew, cells = [Ptr 1, Ptr 2]\<rparr>,
                Some \<lparr>made_by = ArrayNew, cells = [Dbl 1, Dbl 2]\<rparr>,
                Some \<lparr>made_by = ArrayNew, cells = [Dbl 3, Dbl 4]\<rparr>,
                Some \<lparr>made_by = ArrayNew, cells = [Ptr 4, Ptr 5, Ptr 6]\<rparr>,
                Some \<lparr>made_by = ArrayNew, cells = [Dbl 2, Dbl 0, Dbl 1]\<rparr>,
                Some \<lparr>made_by = ArrayNew, cells = [Dbl 1, Dbl 3, Dbl 0]\<rparr>,
                Some \<lparr>made_by = ArrayNew, cells = [Dbl 0, Dbl 1, Dbl 4]\<rparr>],
      exhausted = False\<rparr> = Inr 25"
  using matrix_determinant_formulas
    [of "\<lparr>blocks = [Some \<lparr>made_by = ArrayNew, cells = [Ptr 1, Ptr 2]\<rparr>,
                Some \<lparr>made_by = ArrayNew, cells = [Dbl 1, Dbl 2]\<rparr>,
                Some \<lparr>made_by = ArrayNew, cells = [Dbl 3, Dbl 4]\<rparr>,
                Some \<lparr>made_by = ArrayNew, cells = [Ptr 4, Ptr 5, Ptr 6]\<rparr>,
                Some \<lparr>made_by = ArrayNew, cells = [Dbl 2, Dbl 0, Dbl 1]\<rparr>,
                Some \<lparr>made_by = ArrayNew, cells = [Dbl 1, Dbl 3, Dbl 0]\<rparr>,
                Some \<lparr>made_by = ArrayNew, cells = [Dbl 0, Dbl 1, Dbl 4]\<rparr>],
      exhausted = False\<rparr>" 0 1 2 3 4 3 3 2 0 1 1 3 0 0 1 4]
  by (simp add: matrix_at_def row_of_def dbl_array_def lookup_def)

section \<open>Cross product\<close>

text \<open>
  C5. For vectors \<open>x\<close> and \<open>y\<close>, \<open>vector_cross_product x y 2\<close> returns a newly allocated
  array of length 1 holding \<open>x0 * y1 - x1 * y0\<close>, and for every \<open>ndim\<close> other than 2 a
  newly allocated array of length 3 holding
  \<open>(x1 * y2 - x2 * y1, x2 * y0 - x0 * y2, x0 * y1 - x1 * y0)\<close>. The result is a block
  that was not live before, and no other block changes. The witness runs the spec's two
  examples, \<open>[1,0] x [0,1] = [1]\<close> and \<open>[1,0,0] x [0,1,0] = [0,0,1]\<close>.
\<close>

theorem vector_cross_product_allocates_result:
  assumes "\<not> exhausted h"
  shows "(dbl_array h x [x0, x1] \<and> dbl_array h y [y0, y1] \<longrightarrow>
            (\<exists>cp h'. vector_cross_product x y 2 h = Inr (cp, h') \<and> cp \<notin> live h
               \<and> lookup h' cp = Some \<lparr>made_by = Calloc, cells = [Dbl (x0 * y1 - x1 * y0)]\<rparr>
               \<and> (\<forall>a. a \<noteq> cp \<longrightarrow> lookup h' a = lookup h a)))
       \<and> (ndim \<noteq> 2 \<and> dbl_array h x [x0, x1, x2] \<and> dbl_array h y [y0, y1, y2] \<longrightarrow>
            (\<exists>cp h'. vector_cross_product x y ndim h = Inr (cp, h') \<and> cp \<notin> live h
               \<and> lookup h' cp = Some \<lparr>made_by = Calloc,
                    cells = [Dbl (x1 * y2 - x2 * y1), Dbl (x2 * y0 - x0 * y2),
                             Dbl (x0 * y1 - x1 * y0)]\<rparr>
               \<and> (\<forall>a. a \<noteq> cp \<longrightarrow> lookup h' a = lookup h a)))"
proof (intro conjI impI)
  assume "dbl_array h x [x0, x1] \<and> dbl_array h y [y0, y1]"
  then have "vector_cross_product x y 2 h =
      Inr (length (blocks h),
           h\<lparr>blocks := blocks h @
              [Some \<lparr>made_by = Calloc, cells = [Dbl (x0 * y1 - x1 * y0)]\<rparr>]\<rparr>)"
    using vector_cross_product_2 [OF assms, of x "[x0, x1]" y "[y0, y1]"] by simp
  then show "\<exists>cp h'. vector_cross_product x y 2 h = Inr (cp, h') \<and> cp \<notin> live h
               \<and> lookup h' cp = Some \<lparr>made_by = Calloc, cells = [Dbl (x0 * y1 - x1 * y0)]\<rparr>
               \<and> (\<forall>a. a \<noteq> cp \<longrightarrow> lookup h' a = lookup h a)"
    by (simp add: live_def)
next
  assume "ndim \<noteq> 2 \<and> dbl_array h x [x0, x1, x2] \<and> dbl_array h y [y0, y1, y2]"
  then have "vector_cross_product x y ndim h =
      Inr (length (blocks h),
           h\<lparr>blocks := blocks h @
              [Some \<lparr>made_by = Calloc,
                     cells = [Dbl (x1 * y2 - x2 * y1), Dbl (x2 * y0 - x0 * y2),
                              Dbl (x0 * y1 - x1 * y0)]\<rparr>]\<rparr>)"
    using vector_cross_product_3 [OF _ assms, of ndim x "[x0, x1, x2]" y "[y0, y1, y2]"]
    by simp
  then show "\<exists>cp h'. vector_cross_product x y ndim h = Inr (cp, h') \<and> cp \<notin> live h
               \<and> lookup h' cp = Some \<lparr>made_by = Calloc,
                    cells = [Dbl (x1 * y2 - x2 * y1), Dbl (x2 * y0 - x0 * y2),
                             Dbl (x0 * y1 - x1 * y0)]\<rparr>
               \<and> (\<forall>a. a \<noteq> cp \<longrightarrow> lookup h' a = lookup h a)"
    by (simp add: live_def)
qed

theorem vector_cross_product_witness:
  "vector_cross_product 0 1 2
     \<lparr>blocks = [Some \<lparr>made_by = Calloc, cells = [Dbl 1, Dbl 0]\<rparr>,
                Some \<lparr>made_by = Calloc, cells = [Dbl 0, Dbl 1]\<rparr>], exhausted = False\<rparr>
   = Inr (2, \<lparr>blocks = [Some \<lparr>made_by = Calloc, cells = [Dbl 1, Dbl 0]\<rparr>,
                Some \<lparr>made_by = Calloc, cells = [Dbl 0, Dbl 1]\<rparr>,
                Some \<lparr>made_by = Calloc, cells = [Dbl 1]\<rparr>], exhausted = False\<rparr>)
   \<and> vector_cross_product 0 1 3
     \<lparr>blocks = [Some \<lparr>made_by = Calloc, cells = [Dbl 1, Dbl 0, Dbl 0]\<rparr>,
                Some \<lparr>made_by = Calloc, cells = [Dbl 0, Dbl 1, Dbl 0]\<rparr>], exhausted = False\<rparr>
   = Inr (2, \<lparr>blocks = [Some \<lparr>made_by = Calloc, cells = [Dbl 1, Dbl 0, Dbl 0]\<rparr>,
                Some \<lparr>made_by = Calloc, cells = [Dbl 0, Dbl 1, Dbl 0]\<rparr>,
                Some \<lparr>made_by = Calloc, cells = [Dbl 0, Dbl 0, Dbl 1]\<rparr>], exhausted = False\<rparr>)"
  using vector_cross_product_allocates_result
          [of "\<lparr>blocks = [Some \<lparr>made_by = Calloc, cells = [Dbl 1, Dbl 0]\<rparr>,
                Some \<lparr>made_by = Calloc, cells = [Dbl 0, Dbl 1]\<rparr>], exhausted = False\<rparr>"
              0 1 0 1 0 1 3 0 0]
        vector_cross_product_allocates_result
          [of "\<lparr>blocks = [Some \<lparr>made_by = Calloc, cells = [Dbl 1, Dbl 0, Dbl 0]\<rparr>,
                Some \<lparr>made_by = Calloc, cells = [Dbl 0, Dbl 1, Dbl 0]\<rparr>], exhausted = False\<rparr>"
              0 1 0 1 0 1 3 0 0]
  by (simp add: vector_cross_product_def calloc_def cross_term_def load_dbl_def load_def
        store_def lookup_def eval_nat_numeral)

text \<open>
  C10. The cross product is anticommutative in both branches: every component of
  \<open>vector_cross_product y x ndim\<close> is the negation of the corresponding component of
  \<open>vector_cross_product x y ndim\<close>. The two calls start from the same heap.
\<close>

theorem vector_cross_product_anticommutative:
  assumes "\<not> exhausted h" and "dbl_array h x xs" and "dbl_array h y ys"
    and "length xs = (if ndim = 2 then 2 else 3)" and "length ys = length xs"
  shows "\<exists>cp h1 h2 cs.
           vector_cross_product x y ndim h = Inr (cp, h1)
         \<and> vector_cross_product y x ndim h = Inr (cp, h2)
         \<and> length cs = (if ndim = 2 then 1 else 3)
         \<and> lookup h1 cp = Some \<lparr>made_by = Calloc, cells = map Dbl cs\<rparr>
         \<and> lookup h2 cp = Some \<lparr>made_by = Calloc, cells = map (\<lambda>c. Dbl (- c)) cs\<rparr>"
proof (cases "ndim = 2")
  case True
  then have len: "2 \<le> length xs" "2 \<le> length ys" using assms(4,5) by simp_all
  let ?c = "xs ! 0 * ys ! 1 - xs ! 1 * ys ! 0"
  let ?h1 = "h\<lparr>blocks := blocks h @ [Some \<lparr>made_by = Calloc, cells = [Dbl ?c]\<rparr>]\<rparr>"
  let ?h2 = "h\<lparr>blocks := blocks h @ [Some \<lparr>made_by = Calloc, cells = [Dbl (- ?c)]\<rparr>]\<rparr>"
  have neg: "ys ! 0 * xs ! 1 - ys ! 1 * xs ! 0 = - ?c" by (simp add: algebra_simps)
  have 1: "vector_cross_product x y ndim h = Inr (length (blocks h), ?h1)"
    using True vector_cross_product_2 [OF assms(1,2,3) len] by simp
  have 2: "vector_cross_product y x ndim h = Inr (length (blocks h), ?h2)"
    using True vector_cross_product_2 [OF assms(1,3,2) len(2,1)] neg by simp
  have 3: "length [?c] = (if ndim = 2 then 1 else 3)" using True by simp
  have 4: "lookup ?h1 (length (blocks h)) = Some \<lparr>made_by = Calloc, cells = map Dbl [?c]\<rparr>"
    by simp
  have 5: "lookup ?h2 (length (blocks h))
             = Some \<lparr>made_by = Calloc, cells = map (\<lambda>c. Dbl (- c)) [?c]\<rparr>"
    by simp
  show ?thesis using 1 2 3 4 5 by blast
next
  case False
  then have len: "3 \<le> length xs" "3 \<le> length ys" using assms(4,5) by simp_all
  let ?c0 = "xs ! 1 * ys ! 2 - xs ! 2 * ys ! 1"
  let ?c1 = "xs ! 2 * ys ! 0 - xs ! 0 * ys ! 2"
  let ?c2 = "xs ! 0 * ys ! 1 - xs ! 1 * ys ! 0"
  let ?h1 = "h\<lparr>blocks := blocks h @
      [Some \<lparr>made_by = Calloc, cells = [Dbl ?c0, Dbl ?c1, Dbl ?c2]\<rparr>]\<rparr>"
  let ?h2 = "h\<lparr>blocks := blocks h @
      [Some \<lparr>made_by = Calloc, cells = [Dbl (- ?c0), Dbl (- ?c1), Dbl (- ?c2)]\<rparr>]\<rparr>"
  have neg: "ys ! 1 * xs ! 2 - ys ! 2 * xs ! 1 = - ?c0"
    "ys ! 2 * xs ! 0 - ys ! 0 * xs ! 2 = - ?c1"
    "ys ! 0 * xs ! 1 - ys ! 1 * xs ! 0 = - ?c2"
    by (simp_all add: algebra_simps)
  have 1: "vector_cross_product x y ndim h = Inr (length (blocks h), ?h1)"
    using vector_cross_product_3 [OF False assms(1,2,3) len] by simp
  have 2: "vector_cross_product y x ndim h = Inr (length (blocks h), ?h2)"
    using vector_cross_product_3 [OF False assms(1,3,2) len(2,1)] neg by simp
  have 3: "length [?c0, ?c1, ?c2] = (if ndim = 2 then 1 else 3)" using False by simp
  have 4: "lookup ?h1 (length (blocks h))
             = Some \<lparr>made_by = Calloc, cells = map Dbl [?c0, ?c1, ?c2]\<rparr>"
    by simp
  have 5: "lookup ?h2 (length (blocks h))
             = Some \<lparr>made_by = Calloc, cells = map (\<lambda>c. Dbl (- c)) [?c0, ?c1, ?c2]\<rparr>"
    by simp
  show ?thesis using 1 2 3 4 5 by blast
qed

theorem vector_cross_product_anticommutative_witness:
  "vector_cross_product 0 1 3
     \<lparr>blocks = [Some \<lparr>made_by = Calloc, cells = [Dbl 1, Dbl 2, Dbl 3]\<rparr>,
                Some \<lparr>made_by = Calloc, cells = [Dbl 4, Dbl 5, Dbl 6]\<rparr>], exhausted = False\<rparr>
   = Inr (2, \<lparr>blocks = [Some \<lparr>made_by = Calloc, cells = [Dbl 1, Dbl 2, Dbl 3]\<rparr>,
                Some \<lparr>made_by = Calloc, cells = [Dbl 4, Dbl 5, Dbl 6]\<rparr>,
                Some \<lparr>made_by = Calloc, cells = [Dbl (- 3), Dbl 6, Dbl (- 3)]\<rparr>],
              exhausted = False\<rparr>)
   \<and> vector_cross_product 1 0 3
     \<lparr>blocks = [Some \<lparr>made_by = Calloc, cells = [Dbl 1, Dbl 2, Dbl 3]\<rparr>,
                Some \<lparr>made_by = Calloc, cells = [Dbl 4, Dbl 5, Dbl 6]\<rparr>], exhausted = False\<rparr>
   = Inr (2, \<lparr>blocks = [Some \<lparr>made_by = Calloc, cells = [Dbl 1, Dbl 2, Dbl 3]\<rparr>,
                Some \<lparr>made_by = Calloc, cells = [Dbl 4, Dbl 5, Dbl 6]\<rparr>,
                Some \<lparr>made_by = Calloc, cells = [Dbl 3, Dbl (- 6), Dbl 3]\<rparr>],
              exhausted = False\<rparr>)
   \<and> vector_cross_product 0 1 2
     \<lparr>blocks = [Some \<lparr>made_by = Calloc, cells = [Dbl 1, Dbl 2, Dbl 3]\<rparr>,
                Some \<lparr>made_by = Calloc, cells = [Dbl 4, Dbl 5, Dbl 6]\<rparr>], exhausted = False\<rparr>
   = Inr (2, \<lparr>blocks = [Some \<lparr>made_by = Calloc, cells = [Dbl 1, Dbl 2, Dbl 3]\<rparr>,
                Some \<lparr>made_by = Calloc, cells = [Dbl 4, Dbl 5, Dbl 6]\<rparr>,
                Some \<lparr>made_by = Calloc, cells = [Dbl (- 3)]\<rparr>],
              exhausted = False\<rparr>)
   \<and> vector_cross_product 1 0 2
     \<lparr>blocks = [Some \<lparr>made_by = Calloc, cells = [Dbl 1, Dbl 2, Dbl 3]\<rparr>,
                Some \<lparr>made_by = Calloc, cells = [Dbl 4, Dbl 5, Dbl 6]\<rparr>], exhausted = False\<rparr>
   = Inr (2, \<lparr>blocks = [Some \<lparr>made_by = Calloc, cells = [Dbl 1, Dbl 2, Dbl 3]\<rparr>,
                Some \<lparr>made_by = Calloc, cells = [Dbl 4, Dbl 5, Dbl 6]\<rparr>,
                Some \<lparr>made_by = Calloc, cells = [Dbl 3]\<rparr>],
              exhausted = False\<rparr>)"
  using vector_cross_product_anticommutative
          [of "\<lparr>blocks = [Some \<lparr>made_by = Calloc, cells = [Dbl 1, Dbl 2, Dbl 3]\<rparr>,
                Some \<lparr>made_by = Calloc, cells = [Dbl 4, Dbl 5, Dbl 6]\<rparr>], exhausted = False\<rparr>"
              0 "[1, 2, 3]" 1 "[4, 5, 6]" 3]
        vector_cross_product_anticommutative
          [of "\<lparr>blocks = [Some \<lparr>made_by = Calloc, cells = [Dbl 1, Dbl 2, Dbl 3]\<rparr>,
                Some \<lparr>made_by = Calloc, cells = [Dbl 4, Dbl 5, Dbl 6]\<rparr>], exhausted = False\<rparr>"
              0 "[1, 2]" 1 "[4, 5]" 2]
  by (simp add: vector_cross_product_def calloc_def cross_term_def load_dbl_def load_def
        store_def lookup_def eval_nat_numeral)

text \<open>
  C6, as amended. The allocating and the in-place variant produce the same values,
  element for element, when the output buffer \<open>r\<close> of the in-place variant is, for
  \<open>ndim\<close> other than 2, an array other than \<open>x\<close> and \<open>y\<close>. For \<open>ndim = 2\<close> the buffer may
  be \<open>x\<close> or \<open>y\<close>: the single assignment reads both before it writes. The counterexample
  runs the three assignments of the in-place variant with \<open>r = x\<close> on \<open>x = [1,0,0]\<close>,
  \<open>y = [0,0,1]\<close>: the first one overwrites \<open>x[0]\<close>, which the second one reads.
\<close>

theorem in_place_agrees_without_overlap:
  assumes "\<not> exhausted h" and "dbl_array h x xs" and "dbl_array h y ys"
    and "lookup h r = Some b"
    and "ndim = 2 \<longrightarrow> 2 \<le> length xs \<and> 2 \<le> length ys \<and> 1 \<le> length (cells b)"
    and "ndim \<noteq> 2 \<longrightarrow> 3 \<le> length xs \<and> 3 \<le> length ys \<and> 3 \<le> length (cells b)
                      \<and> r \<noteq> x \<and> r \<noteq> y"
  shows "\<exists>cp h1 h2 cs.
           vector_cross_product x y ndim h = Inr (cp, h1)
         \<and> vector_cross_product_in_place r x y ndim h = Inr h2
         \<and> length cs = (if ndim = 2 then 1 else 3)
         \<and> dbl_array h1 cp cs \<and> dbl_array h2 r cs"
proof (cases "ndim = 2")
  case True
  then have len: "2 \<le> length xs" "2 \<le> length ys" "1 \<le> length (cells b)"
    using assms(5) by simp_all
  let ?c = "xs ! 0 * ys ! 1 - xs ! 1 * ys ! 0"
  let ?h1 = "h\<lparr>blocks := blocks h @ [Some \<lparr>made_by = Calloc, cells = [Dbl ?c]\<rparr>]\<rparr>"
  let ?h2 = "h\<lparr>blocks := (blocks h)[r := Some (b\<lparr>cells := (cells b)[0 := Dbl ?c]\<rparr>)]\<rparr>"
  have r: "r < length (blocks h)" using assms(4) by (rule lookup_Some_less)
  have tk: "take (Suc 0) ((cells b)[0 := Dbl ?c]) = [Dbl ?c]"
    using len(3) by (cases "cells b") simp_all
  have 1: "vector_cross_product x y ndim h = Inr (length (blocks h), ?h1)"
    using True vector_cross_product_2 [OF assms(1,2,3) len(1,2)] by simp
  have 2: "vector_cross_product_in_place r x y ndim h = Inr ?h2"
    using True in_place_2 [OF assms(2,3) len(1,2) assms(4) len(3)] by simp
  have 3: "length [?c] = (if ndim = 2 then 1 else 3)" using True by simp
  have 4: "dbl_array ?h1 (length (blocks h)) [?c]" by (simp add: dbl_array_def)
  have 5: "dbl_array ?h2 r [?c]" using r len(3) tk by (simp add: dbl_array_def)
  show ?thesis using 1 2 3 4 5 by blast
next
  case False
  then have len: "3 \<le> length xs" "3 \<le> length ys" "3 \<le> length (cells b)"
    and ne: "r \<noteq> x" "r \<noteq> y"
    using assms(6) by simp_all
  let ?c0 = "xs ! 1 * ys ! 2 - xs ! 2 * ys ! 1"
  let ?c1 = "xs ! 2 * ys ! 0 - xs ! 0 * ys ! 2"
  let ?c2 = "xs ! 0 * ys ! 1 - xs ! 1 * ys ! 0"
  let ?h1 = "h\<lparr>blocks := blocks h @
      [Some \<lparr>made_by = Calloc, cells = [Dbl ?c0, Dbl ?c1, Dbl ?c2]\<rparr>]\<rparr>"
  let ?h2 = "h\<lparr>blocks := (blocks h)[r := Some (b\<lparr>cells := (cells b)
      [0 := Dbl ?c0, 1 := Dbl ?c1, 2 := Dbl ?c2]\<rparr>)]\<rparr>"
  have r: "r < length (blocks h)" using assms(4) by (rule lookup_Some_less)
  obtain c0 c1 c2 cs where cb: "cells b = c0 # c1 # c2 # cs"
  proof (cases "cells b")
    case Nil
    then show ?thesis using len(3) by simp
  next
    case (Cons c0 t0)
    note t0 = this
    show ?thesis
    proof (cases t0)
      case Nil
      then show ?thesis using len(3) t0 by simp
    next
      case (Cons c1 t1)
      note t1 = this
      show ?thesis
      proof (cases t1)
        case Nil
        then show ?thesis using len(3) t0 t1 by simp
      next
        case (Cons c2 t2)
        then show ?thesis using that t0 t1 by simp
      qed
    qed
  qed
  have 1: "vector_cross_product x y ndim h = Inr (length (blocks h), ?h1)"
    using vector_cross_product_3 [OF False assms(1,2,3) len(1,2)] by simp
  have 2: "vector_cross_product_in_place r x y ndim h = Inr ?h2"
    using in_place_3 [OF False assms(2,3) len(1,2) assms(4) len(3) ne] by simp
  have 3: "length [?c0, ?c1, ?c2] = (if ndim = 2 then 1 else 3)" using False by simp
  have 4: "dbl_array ?h1 (length (blocks h)) [?c0, ?c1, ?c2]" by (simp add: dbl_array_def)
  have 5: "dbl_array ?h2 r [?c0, ?c1, ?c2]" using r by (simp add: dbl_array_def cb)
  show ?thesis using 1 2 3 4 5 by blast
qed

theorem in_place_agrees_witness:
  "vector_cross_product 0 1 3
     \<lparr>blocks = [Some \<lparr>made_by = Calloc, cells = [Dbl 1, Dbl 0, Dbl 0]\<rparr>,
                Some \<lparr>made_by = Calloc, cells = [Dbl 0, Dbl 0, Dbl 1]\<rparr>,
                Some \<lparr>made_by = Calloc, cells = [Dbl 7, Dbl 8, Dbl 9]\<rparr>], exhausted = False\<rparr>
   = Inr (3, \<lparr>blocks = [Some \<lparr>made_by = Calloc, cells = [Dbl 1, Dbl 0, Dbl 0]\<rparr>,
                Some \<lparr>made_by = Calloc, cells = [Dbl 0, Dbl 0, Dbl 1]\<rparr>,
                Some \<lparr>made_by = Calloc, cells = [Dbl 7, Dbl 8, Dbl 9]\<rparr>,
                Some \<lparr>made_by = Calloc, cells = [Dbl 0, Dbl (- 1), Dbl 0]\<rparr>],
              exhausted = False\<rparr>)
   \<and> vector_cross_product_in_place 2 0 1 3
     \<lparr>blocks = [Some \<lparr>made_by = Calloc, cells = [Dbl 1, Dbl 0, Dbl 0]\<rparr>,
                Some \<lparr>made_by = Calloc, cells = [Dbl 0, Dbl 0, Dbl 1]\<rparr>,
                Some \<lparr>made_by = Calloc, cells = [Dbl 7, Dbl 8, Dbl 9]\<rparr>], exhausted = False\<rparr>
   = Inr \<lparr>blocks = [Some \<lparr>made_by = Calloc, cells = [Dbl 1, Dbl 0, Dbl 0]\<rparr>,
                Some \<lparr>made_by = Calloc, cells = [Dbl 0, Dbl 0, Dbl 1]\<rparr>,
                Some \<lparr>made_by = Calloc, cells = [Dbl 0, Dbl (- 1), Dbl 0]\<rparr>],
              exhausted = False\<rparr>
   \<and> vector_cross_product 0 1 2
     \<lparr>blocks = [Some \<lparr>made_by = Calloc, cells = [Dbl 1, Dbl 2]\<rparr>,
                Some \<lparr>made_by = Calloc, cells = [Dbl 3, Dbl 4]\<rparr>], exhausted = False\<rparr>
   = Inr (2, \<lparr>blocks = [Some \<lparr>made_by = Calloc, cells = [Dbl 1, Dbl 2]\<rparr>,
                Some \<lparr>made_by = Calloc, cells = [Dbl 3, Dbl 4]\<rparr>,
                Some \<lparr>made_by = Calloc, cells = [Dbl (- 2)]\<rparr>],
              exhausted = False\<rparr>)
   \<and> vector_cross_product_in_place 0 0 1 2
     \<lparr>blocks = [Some \<lparr>made_by = Calloc, cells = [Dbl 1, Dbl 2]\<rparr>,
                Some \<lparr>made_by = Calloc, cells = [Dbl 3, Dbl 4]\<rparr>], exhausted = False\<rparr>
   = Inr \<lparr>blocks = [Some \<lparr>made_by = Calloc, cells = [Dbl (- 2), Dbl 2]\<rparr>,
                Some \<lparr>made_by = Calloc, cells = [Dbl 3, Dbl 4]\<rparr>],
              exhausted = False\<rparr>"
  using in_place_agrees_without_overlap
          [of "\<lparr>blocks = [Some \<lparr>made_by = Calloc, cells = [Dbl 1, Dbl 0, Dbl 0]\<rparr>,
                Some \<lparr>made_by = Calloc, cells = [Dbl 0, Dbl 0, Dbl 1]\<rparr>,
                Some \<lparr>made_by = Calloc, cells = [Dbl 7, Dbl 8, Dbl 9]\<rparr>], exhausted = False\<rparr>"
              0 "[1, 0, 0]" 1 "[0, 0, 1]" 2 "\<lparr>made_by = Calloc, cells = [Dbl 7, Dbl 8, Dbl 9]\<rparr>" 3]
        in_place_agrees_without_overlap
          [of "\<lparr>blocks = [Some \<lparr>made_by = Calloc, cells = [Dbl 1, Dbl 2]\<rparr>,
                Some \<lparr>made_by = Calloc, cells = [Dbl 3, Dbl 4]\<rparr>], exhausted = False\<rparr>"
              0 "[1, 2]" 1 "[3, 4]" 0 "\<lparr>made_by = Calloc, cells = [Dbl 1, Dbl 2]\<rparr>" 2]
  by (simp add: vector_cross_product_def vector_cross_product_in_place_def calloc_def
        cross_term_def load_dbl_def load_def store_def lookup_def eval_nat_numeral)

theorem in_place_overlap_counterexample:
  "vector_cross_product 0 1 3
     \<lparr>blocks = [Some \<lparr>made_by = Calloc, cells = [Dbl 1, Dbl 0, Dbl 0]\<rparr>,
                Some \<lparr>made_by = Calloc, cells = [Dbl 0, Dbl 0, Dbl 1]\<rparr>], exhausted = False\<rparr>
   = Inr (2, \<lparr>blocks = [Some \<lparr>made_by = Calloc, cells = [Dbl 1, Dbl 0, Dbl 0]\<rparr>,
                Some \<lparr>made_by = Calloc, cells = [Dbl 0, Dbl 0, Dbl 1]\<rparr>,
                Some \<lparr>made_by = Calloc, cells = [Dbl 0, Dbl (- 1), Dbl 0]\<rparr>],
              exhausted = False\<rparr>)
   \<and> vector_cross_product_in_place 0 0 1 3
     \<lparr>blocks = [Some \<lparr>made_by = Calloc, cells = [Dbl 1, Dbl 0, Dbl 0]\<rparr>,
                Some \<lparr>made_by = Calloc, cells = [Dbl 0, Dbl 0, Dbl 1]\<rparr>], exhausted = False\<rparr>
   = Inr \<lparr>blocks = [Some \<lparr>made_by = Calloc, cells = [Dbl 0, Dbl 0, Dbl 0]\<rparr>,
                Some \<lparr>made_by = Calloc, cells = [Dbl 0, Dbl 0, Dbl 1]\<rparr>],
              exhausted = False\<rparr>
   \<and> [Dbl 0, Dbl (- 1), Dbl 0] \<noteq> [Dbl 0, Dbl 0, Dbl 0]"
  by (simp add: vector_cross_product_def vector_cross_product_in_place_def calloc_def
        cross_term_def load_dbl_def load_def store_def lookup_def eval_nat_numeral)

section \<open>Array extrema: bounds\<close>

lemma for_loop_fold:
  assumes "\<And>k s. i \<le> k \<Longrightarrow> k < i + c \<Longrightarrow> body k s = Inr (f k s)"
  shows "for_loop i c body s = Inr (fold f [i..<i + c] s)"
  using assms
proof (induction c arbitrary: i s)
  case 0
  then show ?case by simp
next
  case (Suc c)
  have step: "body i s = Inr (f i s)" using Suc.prems by simp
  have rest: "for_loop (Suc i) c body (f i s) = Inr (fold f [Suc i..<Suc i + c] (f i s))"
    using Suc.prems by (intro Suc.IH) simp_all
  have "[i..<i + Suc c] = i # [Suc i..<Suc i + c]"
    using upt_conv_Cons [of i "i + Suc c"] by (simp del: upt_Suc)
  then have "fold f [i..<i + Suc c] s = fold f [Suc i..<Suc i + c] (f i s)"
    by (simp del: upt_Suc)
  then show ?case using step rest by (simp del: upt_Suc)
qed

lemma fold_max_upt:
  "fold (\<lambda>i m. max m (xs ! i)) [a..<b] (m0::real) = Max (insert m0 ((\<lambda>i. xs ! i) ` {a..<b}))"
proof (induction b)
  case 0
  then show ?case by simp
next
  case (Suc b)
  show ?case
  proof (cases "a \<le> b")
    case True
    let ?S = "(\<lambda>i. xs ! i) ` {a..<b}"
    have "{a..<Suc b} = insert b {a..<b}" using True by auto
    then have "Max (insert m0 ((\<lambda>i. xs ! i) ` {a..<Suc b})) = Max (insert (xs ! b) (insert m0 ?S))"
      by (simp add: insert_commute)
    also have "\<dots> = max (xs ! b) (Max (insert m0 ?S))"
      by (rule Max_insert) simp_all
    finally show ?thesis using True Suc by (simp add: max.commute)
  next
    case False
    then show ?thesis by simp
  qed
qed

lemma fold_min_upt:
  "fold (\<lambda>i m. min m (xs ! i)) [a..<b] (m0::real) = Min (insert m0 ((\<lambda>i. xs ! i) ` {a..<b}))"
proof (induction b)
  case 0
  then show ?case by simp
next
  case (Suc b)
  show ?case
  proof (cases "a \<le> b")
    case True
    let ?S = "(\<lambda>i. xs ! i) ` {a..<b}"
    have "{a..<Suc b} = insert b {a..<b}" using True by auto
    then have "Min (insert m0 ((\<lambda>i. xs ! i) ` {a..<Suc b})) = Min (insert (xs ! b) (insert m0 ?S))"
      by (simp add: insert_commute)
    also have "\<dots> = min (xs ! b) (Min (insert m0 ?S))"
      by (rule Min_insert) simp_all
    finally show ?thesis using True Suc by (simp add: min.commute)
  next
    case False
    then show ?thesis by simp
  qed
qed

lemma set_conv_upt_image:
  assumes "0 < length xs"
  shows "insert (xs ! 0) ((\<lambda>i. xs ! i) ` {Suc 0..<length xs}) = set xs"
proof -
  have "{0..<length xs} = insert 0 {Suc 0..<length xs}" using assms by auto
  then have "insert (xs ! 0) ((\<lambda>i. xs ! i) ` {Suc 0..<length xs})
      = (\<lambda>i. xs ! i) ` {0..<length xs}"
    by simp
  also have "\<dots> = set (map (\<lambda>i. xs ! i) [0..<length xs])" by simp
  also have "\<dots> = set xs" by (simp only: map_nth)
  finally show ?thesis .
qed

lemma gsl_stats_max_value:
  assumes "dbl_array h x xs" and "0 < length xs"
  shows "gsl_stats_max x 1 (length xs) h = Inr (Max (set xs))"
proof -
  have 0: "load_dbl h x 0 = Inr (xs ! 0)" using assms by (simp add: dbl_array_load)
  have "for_loop (Suc 0) (length xs - Suc 0)
          (\<lambda>i m. and_then (load_dbl h x (i * Suc 0)) (\<lambda>xi. Inr (max m xi))) (xs ! 0)
        = Inr (fold (\<lambda>i m. max m (xs ! i)) [Suc 0..<Suc 0 + (length xs - Suc 0)] (xs ! 0))"
    using assms(1) by (intro for_loop_fold) (simp add: dbl_array_load)
  moreover have "Suc 0 + (length xs - Suc 0) = length xs" using assms(2) by simp
  ultimately have "for_loop (Suc 0) (length xs - Suc 0)
          (\<lambda>i m. and_then (load_dbl h x (i * Suc 0)) (\<lambda>xi. Inr (max m xi))) (xs ! 0)
        = Inr (Max (set xs))"
    using assms(2) by (simp only: fold_max_upt set_conv_upt_image)
  then show ?thesis
    using 0 by (simp add: gsl_stats_max_def)
qed

lemma gsl_stats_min_value:
  assumes "dbl_array h x xs" and "0 < length xs"
  shows "gsl_stats_min x 1 (length xs) h = Inr (Min (set xs))"
proof -
  have 0: "load_dbl h x 0 = Inr (xs ! 0)" using assms by (simp add: dbl_array_load)
  have "for_loop (Suc 0) (length xs - Suc 0)
          (\<lambda>i m. and_then (load_dbl h x (i * Suc 0)) (\<lambda>xi. Inr (min m xi))) (xs ! 0)
        = Inr (fold (\<lambda>i m. min m (xs ! i)) [Suc 0..<Suc 0 + (length xs - Suc 0)] (xs ! 0))"
    using assms(1) by (intro for_loop_fold) (simp add: dbl_array_load)
  moreover have "Suc 0 + (length xs - Suc 0) = length xs" using assms(2) by simp
  ultimately have "for_loop (Suc 0) (length xs - Suc 0)
          (\<lambda>i m. and_then (load_dbl h x (i * Suc 0)) (\<lambda>xi. Inr (min m xi))) (xs ! 0)
        = Inr (Min (set xs))"
    using assms(2) by (simp only: fold_min_upt set_conv_upt_image)
  then show ?thesis
    using 0 by (simp add: gsl_stats_min_def)
qed

text \<open>
  C8. For an array \<open>x\<close> of length \<open>n \<ge> 1\<close>: \<open>array_min x n \<le> x[i] \<le> array_max x n\<close> for every
  index \<open>i < n\<close>, both values are elements of \<open>x\<close>, and both are \<open>x[0]\<close> when \<open>n = 1\<close>.
\<close>

theorem array_min_max_bounds:
  assumes "dbl_array h x xs" and "1 \<le> n" and "n \<le> 2147483647" and "length xs = nat n"
  shows "\<exists>mn mx. array_min x n h = Inr mn \<and> array_max x n h = Inr mx
           \<and> (\<forall>i<nat n. mn \<le> xs ! i \<and> xs ! i \<le> mx)
           \<and> mn \<in> set xs \<and> mx \<in> set xs
           \<and> (n = 1 \<longrightarrow> mn = xs ! 0 \<and> mx = xs ! 0)"
proof -
  have sz: "size_t_of_int n = length xs"
    using assms(2,3,4) by (simp add: size_t_of_int_def)
  have pos: "0 < length xs" using assms(2,4) by simp
  then have ne: "set xs \<noteq> {}" by simp
  have 1: "array_min x n h = Inr (Min (set xs))"
    using gsl_stats_min_value [OF assms(1) pos] by (simp add: array_min_def sz)
  have 2: "array_max x n h = Inr (Max (set xs))"
    using gsl_stats_max_value [OF assms(1) pos] by (simp add: array_max_def sz)
  have 3: "\<forall>i<nat n. Min (set xs) \<le> xs ! i \<and> xs ! i \<le> Max (set xs)"
    using assms(4) by simp
  have 4: "Min (set xs) \<in> set xs" "Max (set xs) \<in> set xs"
    using ne by (simp_all add: Min_in Max_in del: set_empty)
  have 5: "n = 1 \<longrightarrow> Min (set xs) = xs ! 0 \<and> Max (set xs) = xs ! 0"
  proof
    assume "n = 1"
    then have "length xs = 1" using assms(4) by simp
    then obtain v where "xs = [v]" by (cases xs) simp_all
    then show "Min (set xs) = xs ! 0 \<and> Max (set xs) = xs ! 0" by simp
  qed
  show ?thesis using 1 2 3 4 5 by blast
qed

theorem array_min_max_witness:
  "array_min 0 3 \<lparr>blocks = [Some \<lparr>made_by = Calloc, cells = [Dbl 2, Dbl (- 1), Dbl 5]\<rparr>],
                 exhausted = False\<rparr> = Inr (- 1)
   \<and> array_max 0 3 \<lparr>blocks = [Some \<lparr>made_by = Calloc, cells = [Dbl 2, Dbl (- 1), Dbl 5]\<rparr>],
                 exhausted = False\<rparr> = Inr 5
   \<and> array_min 0 1 \<lparr>blocks = [Some \<lparr>made_by = Calloc, cells = [Dbl 2, Dbl (- 1), Dbl 5]\<rparr>],
                 exhausted = False\<rparr> = Inr 2
   \<and> array_max 0 1 \<lparr>blocks = [Some \<lparr>made_by = Calloc, cells = [Dbl 2, Dbl (- 1), Dbl 5]\<rparr>],
                 exhausted = False\<rparr> = Inr 2"
  using array_min_max_bounds
          [of "\<lparr>blocks = [Some \<lparr>made_by = Calloc, cells = [Dbl 2, Dbl (- 1), Dbl 5]\<rparr>],
                 exhausted = False\<rparr>" 0 "[2, - 1, 5]" 3]
        array_min_max_bounds
          [of "\<lparr>blocks = [Some \<lparr>made_by = Calloc, cells = [Dbl 2, Dbl (- 1), Dbl 5]\<rparr>],
                 exhausted = False\<rparr>" 0 "[2]" 1]
  by (simp add: array_min_def array_max_def gsl_stats_min_def gsl_stats_max_def
        size_t_of_int_def load_dbl_def load_def lookup_def eval_nat_numeral)

section \<open>Allocation and release of the nested arrays\<close>

text \<open>
  C1. The claim: for positive \<open>n\<close>, \<open>l\<close>, \<open>m\<close>, \<open>p\<close>, \<open>four_dimensional_array n l m p\<close> returns
  an array in which each of the \<open>n * l\<close> second-level rows holds \<open>m\<close> pointers, every one
  of them to an allocated leaf of length \<open>p\<close>. The source fills the row of \<open>m\<close> pointers
  with a loop that runs below \<open>p\<close>. With \<open>m = 2\<close>, \<open>p = 1\<close> the second pointer of the row
  stays indeterminate; with \<open>m = 1\<close>, \<open>p = 2\<close> the second store is past the end of the
  row.
\<close>

theorem four_dimensional_array_misses_leaves:
  "four_dimensional_array 1 1 2 1 \<lparr>blocks = [], exhausted = False\<rparr>
     = Inr (0, \<lparr>blocks = [Some \<lparr>made_by = ArrayNew, cells = [Ptr 1]\<rparr>,
                          Some \<lparr>made_by = ArrayNew, cells = [Ptr 2]\<rparr>,
                          Some \<lparr>made_by = ArrayNew, cells = [Ptr 3, Indet]\<rparr>,
                          Some \<lparr>made_by = ArrayNew, cells = [Indet]\<rparr>],
                exhausted = False\<rparr>)
   \<and> four_dimensional_array 1 1 1 2 \<lparr>blocks = [], exhausted = False\<rparr>
     = Inl (OutOfBounds 2 1)"
  by (simp add: four_dimensional_array_def new_array_def store_def load_ptr_def load_def
        lookup_def eval_nat_numeral)

text \<open>
  C9. The claim: allocating and then releasing with the same dimensions releases every
  block exactly once and never through a mismatched operation. Each of the three
  deallocators ends with \<^verbatim>\<open>delete x\<close> on the top array, which \<^verbatim>\<open>new[]\<close> made: the
  leaves and the rows are released with \<^verbatim>\<open>delete[]\<close>, the top pointer is not.
\<close>

theorem deallocators_release_top_with_scalar_delete:
  "two_dimensional_array 1 1 \<lparr>blocks = [], exhausted = False\<rparr>
     = Inr (0, \<lparr>blocks = [Some \<lparr>made_by = ArrayNew, cells = [Ptr 1]\<rparr>,
                          Some \<lparr>made_by = ArrayNew, cells = [Dbl 0]\<rparr>],
                exhausted = False\<rparr>)
   \<and> deallocate_two_dimensional_array 0 1 1
        \<lparr>blocks = [Some \<lparr>made_by = ArrayNew, cells = [Ptr 1]\<rparr>,
                   Some \<lparr>made_by = ArrayNew, cells = [Dbl 0]\<rparr>],
         exhausted = False\<rparr>
     = Inl (MismatchedDelete 0)
   \<and> three_dimensional_array 1 1 1 \<lparr>blocks = [], exhausted = False\<rparr>
     = Inr (0, \<lparr>blocks = [Some \<lparr>made_by = ArrayNew, cells = [Ptr 1]\<rparr>,
                          Some \<lparr>made_by = ArrayNew, cells = [Ptr 2]\<rparr>,
                          Some \<lparr>made_by = ArrayNew, cells = [Indet]\<rparr>],
                exhausted = False\<rparr>)
   \<and> deallocate_three_dimensional_array 0 1 1 1
        \<lparr>blocks = [Some \<lparr>made_by = ArrayNew, cells = [Ptr 1]\<rparr>,
                   Some \<lparr>made_by = ArrayNew, cells = [Ptr 2]\<rparr>,
                   Some \<lparr>made_by = ArrayNew, cells = [Indet]\<rparr>],
         exhausted = False\<rparr>
     = Inl (MismatchedDelete 0)
   \<and> four_dimensional_array 1 1 1 1 \<lparr>blocks = [], exhausted = False\<rparr>
     = Inr (0, \<lparr>blocks = [Some \<lparr>made_by = ArrayNew, cells = [Ptr 1]\<rparr>,
                          Some \<lparr>made_by = ArrayNew, cells = [Ptr 2]\<rparr>,
                          Some \<lparr>made_by = ArrayNew, cells = [Ptr 3]\<rparr>,
                          Some \<lparr>made_by = ArrayNew, cells = [Indet]\<rparr>],
                exhausted = False\<rparr>)
   \<and> deallocate_four_dimensional_array 0 1 1 1 1
        \<lparr>blocks = [Some \<lparr>made_by = ArrayNew, cells = [Ptr 1]\<rparr>,
                   Some \<lparr>made_by = ArrayNew, cells = [Ptr 2]\<rparr>,
                   Some \<lparr>made_by = ArrayNew, cells = [Ptr 3]\<rparr>,
                   Some \<lparr>made_by = ArrayNew, cells = [Indet]\<rparr>],
         exhausted = False\<rparr>
     = Inl (MismatchedDelete 0)"
  by (simp add: two_dimensional_array_def three_dimensional_array_def
        four_dimensional_array_def deallocate_two_dimensional_array_def
        deallocate_three_dimensional_array_def deallocate_four_dimensional_array_def
        new_array_def store_def store2_def load_ptr_def load_def lookup_def
        delete_array_def delete_scalar_def eval_nat_numeral)

section \<open>Loops with an invariant, and the log-log spline\<close>

lemma for_loop_invariant:
  assumes "I i s"
    and "\<And>k t. i \<le> k \<Longrightarrow> k < i + c \<Longrightarrow> I k t \<Longrightarrow> \<exists>t'. body k t = Inr t' \<and> I (Suc k) t'"
  shows "\<exists>t. for_loop i c body s = Inr t \<and> I (i + c) t"
  using assms
proof (induction c arbitrary: i s)
  case 0
  then show ?case by simp
next
  case (Suc c)
  from Suc.prems(2) [of i s] Suc.prems(1)
  obtain t where t: "body i s = Inr t" "I (Suc i) t" by auto
  have "\<exists>u. for_loop (Suc i) c body t = Inr u \<and> I (Suc i + c) u"
  proof (rule Suc.IH [OF t(2)])
    fix k u assume "Suc i \<le> k" "k < Suc i + c" "I k u"
    then show "\<exists>t'. body k u = Inr t' \<and> I (Suc k) t'"
      using Suc.prems(2) [of k u] by simp
  qed
  then show ?case using t(1) by simp
qed

lemma for_loop_add:
  "for_loop i (a + b) body s =
     (case for_loop i a body s of Inl e \<Rightarrow> Inl e | Inr t \<Rightarrow> for_loop (i + a) b body t)"
  by (induction a arbitrary: i s) (simp_all split: sum.splits)

lemma for_loop_stops:
  assumes "I i s"
    and "\<And>j t. i \<le> j \<Longrightarrow> j < k \<Longrightarrow> I j t \<Longrightarrow> \<exists>t'. body j t = Inr t' \<and> I (Suc j) t'"
    and "\<And>t. I k t \<Longrightarrow> body k t = Inl e"
    and "i \<le> k" and "k < i + c"
  shows "for_loop i c body s = Inl e"
proof -
  define d where "d = c - (k - i) - 1"
  have c: "c = (k - i) + Suc d"
    using assms(4,5) by (simp add: d_def)
  have "\<exists>t. for_loop i (k - i) body s = Inr t \<and> I (i + (k - i)) t"
    using assms(1,2,4) by (intro for_loop_invariant) auto
  then obtain t where t: "for_loop i (k - i) body s = Inr t" "I k t"
    using assms(4) by auto
  show ?thesis
    unfolding c for_loop_add using t assms(3,4) by simp
qed

lemma fold_snoc_nth:
  "n \<le> length xs \<Longrightarrow> fold (\<lambda>i acc. acc @ [xs ! i]) [0..<n] [] = take n xs"
  by (induction n) (simp_all add: take_Suc_conv_app_nth)

lemma load_doubles_value:
  assumes "dbl_array h a xs" and "n \<le> length xs"
  shows "load_doubles h a n = Inr (take n xs)"
proof -
  have "for_loop 0 n (\<lambda>i acc. and_then (load_dbl h a i) (\<lambda>v. Inr (acc @ [v]))) []
        = Inr (fold (\<lambda>i acc. acc @ [xs ! i]) [0..<0 + n] [])"
    using assms by (intro for_loop_fold) (simp add: dbl_array_load)
  then show ?thesis using assms(2) by (simp add: load_doubles_def fold_snoc_nth)
qed


lemma dbl_array_append:
  "dbl_array h a xs \<Longrightarrow> dbl_array (h\<lparr>blocks := blocks h @ [b]\<rparr>) a xs"
  by (auto simp: dbl_array_def split: option.splits dest: lookup_Some_less)

lemma filled_update:
  assumes "k < length xs"
  shows "(map g (take k xs) @ replicate (length xs - k) z)[k := g (xs ! k)]
         = map g (take (Suc k) xs) @ replicate (length xs - Suc k) z"
proof -
  have "replicate (length xs - k) z = z # replicate (length xs - Suc k) z"
    using assms by (metis Suc_diff_Suc replicate_Suc)
  moreover have "length (map g (take k xs)) = k" using assms by simp
  ultimately show ?thesis
    using assms by (simp add: list_update_append take_Suc_conv_app_nth)
qed

lemma log10_loop_step:
  assumes "dbl_array h log10x xs" and "k < length xs"
    and s: "s = h\<lparr>blocks := blocks h @ [Some \<lparr>made_by = Calloc,
              cells = map (\<lambda>v. Dbl (log 10 (f (10 powr v) params))) (take k xs)
                      @ replicate (length xs - k) (Dbl 0)\<rparr>]\<rparr>"
  shows "and_then (load_dbl s log10x k) (\<lambda>v.
          let x = 10 powr v; y = f x params in
          if y \<le> 0 then Inl (ExitLog10Spline x y)
          else store s (length (blocks h)) k (Dbl (log 10 y)))
         = (if f (10 powr (xs ! k)) params \<le> 0
            then Inl (ExitLog10Spline (10 powr (xs ! k)) (f (10 powr (xs ! k)) params))
            else Inr (h\<lparr>blocks := blocks h @ [Some \<lparr>made_by = Calloc,
              cells = map (\<lambda>v. Dbl (log 10 (f (10 powr v) params))) (take (Suc k) xs)
                      @ replicate (length xs - Suc k) (Dbl 0)\<rparr>]\<rparr>))"
proof -
  have ld: "load_dbl s log10x k = Inr (xs ! k)"
    unfolding s using assms(1,2) by (intro dbl_array_load dbl_array_append)
  have st: "store s (length (blocks h)) k v
      = Inr (h\<lparr>blocks := blocks h @ [Some \<lparr>made_by = Calloc,
              cells = (map (\<lambda>v. Dbl (log 10 (f (10 powr v) params))) (take k xs)
                      @ replicate (length xs - k) (Dbl 0))[k := v]\<rparr>]\<rparr>)" for v
    unfolding s using assms(2) by (simp add: store_def)
  show ?thesis
    using assms(2)
    by (simp add: ld st Let_def
        filled_update [where g = "\<lambda>v. Dbl (log 10 (f (10 powr v) params))"])
qed

lemma create_log10_spline_ok:
  assumes "0 \<le> n" and "\<not> exhausted h" and "dbl_array h log10x xs" and "length xs = nat n"
    and pos: "\<forall>i<nat n. 0 < f (10 powr (xs ! i)) params"
  shows "create_log10_spline f log10x n params h =
           Inr (length (blocks h),
                \<lparr>spline_size = nat n, spline_x = xs,
                  spline_y = map (\<lambda>v. log 10 (f (10 powr v) params)) xs\<rparr>,
                \<lparr>cache = 0\<rparr>,
                h\<lparr>blocks := blocks h @ [Some \<lparr>made_by = Calloc,
                     cells = map (\<lambda>v. Dbl (log 10 (f (10 powr v) params))) xs\<rparr>]\<rparr>)"
proof -
  let ?G = "\<lambda>v. Dbl (log 10 (f (10 powr v) params))"
  let ?st = "\<lambda>k. h\<lparr>blocks := blocks h @ [Some \<lparr>made_by = Calloc,
              cells = map ?G (take k xs) @ replicate (length xs - k) (Dbl 0)\<rparr>]\<rparr>"
  let ?body = "\<lambda>i s. and_then (load_dbl s log10x i) (\<lambda>v.
          let x = 10 powr v; y = f x params in
          if y \<le> 0 then Inl (ExitLog10Spline x y)
          else store s (length (blocks h)) i (Dbl (log 10 y)))"
  let ?hf = "h\<lparr>blocks := blocks h @ [Some \<lparr>made_by = Calloc, cells = map ?G xs\<rparr>]\<rparr>"
  have "\<exists>t. for_loop 0 (nat n) ?body (?st 0) = Inr t \<and> t = ?st (0 + nat n)"
  proof (rule for_loop_invariant [where I = "\<lambda>k t. t = ?st k"])
    show "?st 0 = ?st 0" ..
  next
    fix k t assume k: "0 \<le> k" "k < 0 + nat n" and t: "t = ?st k"
    then have kl: "k < length xs" using assms(4) by simp
    have "\<not> f (10 powr (xs ! k)) params \<le> 0" using pos k by (simp add: not_le)
    then have "?body k t = Inr (?st (Suc k))"
      using log10_loop_step [where f = f and params = params, OF assms(3) kl t] by simp
    then show "\<exists>t'. ?body k t = Inr t' \<and> t' = ?st (Suc k)" by simp
  qed
  then have loop: "for_loop 0 (nat n) ?body
        (h\<lparr>blocks := blocks h @ [Some \<lparr>made_by = Calloc,
              cells = replicate (nat n) (Dbl 0)\<rparr>]\<rparr>) = Inr ?hf"
    using assms(4) by simp
  have ca: "calloc_double_array n h = Inr (length (blocks h),
        h\<lparr>blocks := blocks h @ [Some \<lparr>made_by = Calloc,
              cells = replicate (nat n) (Dbl 0)\<rparr>]\<rparr>)"
    using assms(1,2) by (simp add: calloc_double_array_def calloc_def)
  have lx: "load_doubles ?hf log10x (nat n) = Inr xs"
    using load_doubles_value [OF dbl_array_append [OF assms(3)], of "nat n"] assms(4)
    by simp
  have "dbl_array ?hf (length (blocks h)) (map (\<lambda>v. log 10 (f (10 powr v) params)) xs)"
    by (simp add: dbl_array_def comp_def)
  then have ly: "load_doubles ?hf (length (blocks h)) (nat n)
      = Inr (map (\<lambda>v. log 10 (f (10 powr v) params)) xs)"
    using load_doubles_value [of ?hf "length (blocks h)"
        "map (\<lambda>v. log 10 (f (10 powr v) params)) xs" "nat n"] assms(4)
    by simp
  show ?thesis
    by (simp add: create_log10_spline_def ca loop lx ly gsl_spline_init_def
        gsl_spline_alloc_def gsl_interp_accel_alloc_def)
qed

lemma create_log10_spline_exit:
  assumes "0 \<le> n" and "\<not> exhausted h" and "dbl_array h log10x xs" and "length xs = nat n"
    and i: "i < nat n" "f (10 powr (xs ! i)) params \<le> 0"
    and before: "\<forall>k<i. 0 < f (10 powr (xs ! k)) params"
  shows "create_log10_spline f log10x n params h =
           Inl (ExitLog10Spline (10 powr (xs ! i)) (f (10 powr (xs ! i)) params))"
proof -
  let ?G = "\<lambda>v. Dbl (log 10 (f (10 powr v) params))"
  let ?st = "\<lambda>k. h\<lparr>blocks := blocks h @ [Some \<lparr>made_by = Calloc,
              cells = map ?G (take k xs) @ replicate (length xs - k) (Dbl 0)\<rparr>]\<rparr>"
  let ?body = "\<lambda>i s. and_then (load_dbl s log10x i) (\<lambda>v.
          let x = 10 powr v; y = f x params in
          if y \<le> 0 then Inl (ExitLog10Spline x y)
          else store s (length (blocks h)) i (Dbl (log 10 y)))"
  have loop: "for_loop 0 (nat n) ?body (?st 0)
      = Inl (ExitLog10Spline (10 powr (xs ! i)) (f (10 powr (xs ! i)) params))"
  proof (rule for_loop_stops [where I = "\<lambda>k t. t = ?st k" and k = i])
    show "?st 0 = ?st 0" ..
  next
    fix j t assume j: "0 \<le> j" "j < i" and t: "t = ?st j"
    then have jl: "j < length xs" using assms(4) i(1) by simp
    have "\<not> f (10 powr (xs ! j)) params \<le> 0" using before j by (simp add: not_le)
    then have "?body j t = Inr (?st (Suc j))"
      using log10_loop_step [where f = f and params = params, OF assms(3) jl t] by simp
    then show "\<exists>t'. ?body j t = Inr t' \<and> t' = ?st (Suc j)" by simp
  next
    fix t assume t: "t = ?st i"
    have il: "i < length xs" using assms(4) i(1) by simp
    show "?body i t = Inl (ExitLog10Spline (10 powr (xs ! i)) (f (10 powr (xs ! i)) params))"
      using log10_loop_step [where f = f and params = params, OF assms(3) il t] i(2) by simp
  next
    show "0 \<le> i" by simp
    show "i < 0 + nat n" using i(1) by simp
  qed
  then have loop': "for_loop 0 (nat n) ?body
        (h\<lparr>blocks := blocks h @ [Some \<lparr>made_by = Calloc,
              cells = replicate (nat n) (Dbl 0)\<rparr>]\<rparr>)
      = Inl (ExitLog10Spline (10 powr (xs ! i)) (f (10 powr (xs ! i)) params))"
    using assms(4) by simp
  have ca: "calloc_double_array n h = Inr (length (blocks h),
        h\<lparr>blocks := blocks h @ [Some \<lparr>made_by = Calloc,
              cells = replicate (nat n) (Dbl 0)\<rparr>]\<rparr>)"
    using assms(1,2) by (simp add: calloc_double_array_def calloc_def)
  show ?thesis
    by (simp add: create_log10_spline_def ca loop')
qed

text \<open>
  C2. For an evaluator \<open>f\<close>, a parameter block and an abscissa array of length \<open>n \<ge> 2\<close>,
  on a heap where the allocation succeeds: \<open>create_log10_spline\<close> ends in its own fatal
  exit, which reports the offending \<open>x\<close> and \<open>y\<close>, exactly when
  \<open>f (10 powr log10x[i]) params \<le> 0\<close> for some \<open>i < n\<close>; it has no other way to fail; and
  when every sampled value is positive it returns with
  \<open>log10y[i] = log10 (f (10 powr log10x[i]) params)\<close> for every \<open>i < n\<close>, in an array that
  was not live before.
\<close>

theorem create_log10_spline_exits_iff_nonpositive:
  assumes "2 \<le> n" and "\<not> exhausted h" and "dbl_array h log10x xs" and "length xs = nat n"
  shows "((\<exists>x y. create_log10_spline f log10x n params h = Inl (ExitLog10Spline x y))
            \<longleftrightarrow> (\<exists>i<nat n. f (10 powr (xs ! i)) params \<le> 0))
       \<and> (\<forall>e. create_log10_spline f log10x n params h = Inl e \<longrightarrow>
             (\<exists>i<nat n. f (10 powr (xs ! i)) params \<le> 0
                \<and> e = ExitLog10Spline (10 powr (xs ! i)) (f (10 powr (xs ! i)) params)))
       \<and> ((\<forall>i<nat n. 0 < f (10 powr (xs ! i)) params) \<longrightarrow>
             (\<exists>log10y spline acc h'.
                create_log10_spline f log10x n params h = Inr (log10y, spline, acc, h')
              \<and> log10y \<notin> live h
              \<and> lookup h' log10y = Some \<lparr>made_by = Calloc,
                   cells = map (\<lambda>v. Dbl (log 10 (f (10 powr v) params))) xs\<rparr>))"
proof -
  let ?r = "create_log10_spline f log10x n params h"
  let ?bad = "\<exists>i<nat n. f (10 powr (xs ! i)) params \<le> 0"
  have n0: "0 \<le> n" using assms(1) by simp
  have exit: "\<exists>i<nat n. f (10 powr (xs ! i)) params \<le> 0
                 \<and> ?r = Inl (ExitLog10Spline (10 powr (xs ! i)) (f (10 powr (xs ! i)) params))"
    if bad: ?bad
  proof -
    define P where "P = (\<lambda>i. i < nat n \<and> f (10 powr (xs ! i)) params \<le> 0)"
    define i where "i = (LEAST i. P i)"
    have "\<exists>i. P i" using bad by (auto simp: P_def)
    then have "P i" unfolding i_def by (rule LeastI_ex)
    then have i: "i < nat n" "f (10 powr (xs ! i)) params \<le> 0" by (simp_all add: P_def)
    have "\<not> P k" if "k < i" for k
      using that unfolding i_def by (rule not_less_Least)
    then have before: "\<forall>k<i. 0 < f (10 powr (xs ! k)) params"
      using i(1) by (auto simp: P_def not_le)
    have "?r = Inl (ExitLog10Spline (10 powr (xs ! i)) (f (10 powr (xs ! i)) params))"
      by (rule create_log10_spline_exit [where f = f and params = params, OF n0 assms(2,3,4) i before])
    then show ?thesis using i by blast
  qed
  have ok: "?r = Inr (length (blocks h),
                \<lparr>spline_size = nat n, spline_x = xs,
                  spline_y = map (\<lambda>v. log 10 (f (10 powr v) params)) xs\<rparr>,
                \<lparr>cache = 0\<rparr>,
                h\<lparr>blocks := blocks h @ [Some \<lparr>made_by = Calloc,
                     cells = map (\<lambda>v. Dbl (log 10 (f (10 powr v) params))) xs\<rparr>]\<rparr>)"
    if "\<not> ?bad"
  proof -
    from that have pos: "\<forall>i<nat n. 0 < f (10 powr (xs ! i)) params" by (auto simp: not_le)
    show ?thesis by (rule create_log10_spline_ok [where f = f and params = params, OF n0 assms(2,3,4) pos])
  qed
  have 1: "(\<exists>x y. ?r = Inl (ExitLog10Spline x y)) \<longleftrightarrow> ?bad"
  proof
    assume "\<exists>x y. ?r = Inl (ExitLog10Spline x y)"
    then show ?bad using ok by (cases ?bad) simp_all
  next
    assume ?bad
    from exit [OF this] show "\<exists>x y. ?r = Inl (ExitLog10Spline x y)" by blast
  qed
  have 2: "\<forall>e. ?r = Inl e \<longrightarrow>
             (\<exists>i<nat n. f (10 powr (xs ! i)) params \<le> 0
                \<and> e = ExitLog10Spline (10 powr (xs ! i)) (f (10 powr (xs ! i)) params))"
  proof (intro allI impI)
    fix e assume e: "?r = Inl e"
    then have ?bad using ok by (cases ?bad) simp_all
    from exit [OF this] e show "\<exists>i<nat n. f (10 powr (xs ! i)) params \<le> 0
                \<and> e = ExitLog10Spline (10 powr (xs ! i)) (f (10 powr (xs ! i)) params)"
      by auto
  qed
  have 3: "(\<forall>i<nat n. 0 < f (10 powr (xs ! i)) params) \<longrightarrow>
             (\<exists>log10y spline acc h'. ?r = Inr (log10y, spline, acc, h')
              \<and> log10y \<notin> live h
              \<and> lookup h' log10y = Some \<lparr>made_by = Calloc,
                   cells = map (\<lambda>v. Dbl (log 10 (f (10 powr v) params))) xs\<rparr>)"
  proof
    assume "\<forall>i<nat n. 0 < f (10 powr (xs ! i)) params"
    then have "\<not> ?bad" by (auto simp: not_le)
    from ok [OF this] show "\<exists>log10y spline acc h'. ?r = Inr (log10y, spline, acc, h')
              \<and> log10y \<notin> live h
              \<and> lookup h' log10y = Some \<lparr>made_by = Calloc,
                   cells = map (\<lambda>v. Dbl (log 10 (f (10 powr v) params))) xs\<rparr>"
      by (simp add: live_def)
  qed
  show ?thesis using 1 2 3 by blast
qed

theorem create_log10_spline_witness:
  "create_log10_spline (\<lambda>x p. p * x) 0 2 (1::real)
     \<lparr>blocks = [Some \<lparr>made_by = Calloc, cells = [Dbl 0, Dbl 1]\<rparr>], exhausted = False\<rparr>
   = Inr (1, \<lparr>spline_size = 2, spline_x = [0, 1], spline_y = [0, 1]\<rparr>, \<lparr>cache = 0\<rparr>,
          \<lparr>blocks = [Some \<lparr>made_by = Calloc, cells = [Dbl 0, Dbl 1]\<rparr>,
                     Some \<lparr>made_by = Calloc, cells = [Dbl 0, Dbl 1]\<rparr>], exhausted = False\<rparr>)
   \<and> create_log10_spline (\<lambda>x p. p - x) 0 2 (5::real)
     \<lparr>blocks = [Some \<lparr>made_by = Calloc, cells = [Dbl 0, Dbl 1]\<rparr>], exhausted = False\<rparr>
   = Inl (ExitLog10Spline 10 (- 5))"
  using create_log10_spline_exits_iff_nonpositive
          [of 2 "\<lparr>blocks = [Some \<lparr>made_by = Calloc, cells = [Dbl 0, Dbl 1]\<rparr>],
                  exhausted = False\<rparr>" 0 "[0, 1]" "\<lambda>x p. p * x" "1::real"]
        create_log10_spline_exits_iff_nonpositive
          [of 2 "\<lparr>blocks = [Some \<lparr>made_by = Calloc, cells = [Dbl 0, Dbl 1]\<rparr>],
                  exhausted = False\<rparr>" 0 "[0, 1]" "\<lambda>x p. p - x" "5::real"]
  by (simp add: create_log10_spline_def calloc_double_array_def calloc_def load_dbl_def
        load_def store_def lookup_def gsl_spline_init_def gsl_spline_alloc_def
        gsl_interp_accel_alloc_def load_doubles_def eval_nat_numeral)

section \<open>The two-dimensional allocator and the tensor transformation\<close>

lemma with_rows_length [simp]:
  "length (blocks (with_rows h tp row n)) = length (blocks h) + 1 + n"
  by (simp add: with_rows_def)

lemma with_rows_exhausted [simp]: "exhausted (with_rows h tp row n) = exhausted h"
  by (simp add: with_rows_def)

lemma with_rows_cong:
  "(\<And>i. i < n \<Longrightarrow> row i = row' i) \<Longrightarrow> with_rows h tp row n = with_rows h tp row' n"
  by (simp add: with_rows_def)

lemma lookup_with_rows_old:
  "a < length (blocks h) \<Longrightarrow> lookup (with_rows h tp row n) a = lookup h a"
  by (simp add: with_rows_def lookup_def nth_append)

lemma lookup_with_rows_top:
  "lookup (with_rows h tp row n) (length (blocks h)) = Some \<lparr>made_by = ArrayNew, cells = tp\<rparr>"
  by (simp add: with_rows_def lookup_def nth_append)

lemma lookup_with_rows_row:
  "i < n \<Longrightarrow> lookup (with_rows h tp row n) (Suc (length (blocks h) + i))
               = Some \<lparr>made_by = ArrayNew, cells = row i\<rparr>"
  by (simp add: with_rows_def lookup_def nth_append)

lemma with_rows_new_array:
  assumes "\<not> exhausted h" and "0 \<le> L"
  shows "new_array L (with_rows h tp row k)
         = Inr (Suc (length (blocks h) + k),
                with_rows h tp (row(k := replicate (nat L) Indet)) (Suc k))"
  using assms by (simp add: new_array_def with_rows_def)

lemma with_rows_store_top:
  assumes "i < length tp"
  shows "store (with_rows h tp row n) (length (blocks h)) i v
         = Inr (with_rows h (tp[i := v]) row n)"
proof -
  have "store (with_rows h tp row n) (length (blocks h)) i v
        = Inr (with_rows h tp row n\<lparr>blocks := (blocks (with_rows h tp row n))
             [length (blocks h) := Some \<lparr>made_by = ArrayNew, cells = tp[i := v]\<rparr>]\<rparr>)"
    using assms unfolding store_def lookup_with_rows_top by simp
  also have "\<dots> = Inr (with_rows h (tp[i := v]) row n)"
    by (simp add: with_rows_def)
  finally show ?thesis .
qed

lemma with_rows_store_row:
  assumes "i < n" and "j < length (row i)"
  shows "store (with_rows h tp row n) (Suc (length (blocks h) + i)) j v
         = Inr (with_rows h tp (row(i := (row i)[j := v])) n)"
proof -
  have eq: "(map (\<lambda>i. Some \<lparr>made_by = ArrayNew, cells = row i\<rparr>) [0..<n])
          [i := Some \<lparr>made_by = ArrayNew, cells = (row i)[j := v]\<rparr>]
        = map (\<lambda>k. Some \<lparr>made_by = ArrayNew, cells = (row(i := (row i)[j := v])) k\<rparr>) [0..<n]"
    using assms(1) by (intro nth_equalityI) (auto simp: nth_list_update)
  have "store (with_rows h tp row n) (Suc (length (blocks h) + i)) j v
        = Inr (with_rows h tp row n\<lparr>blocks := (blocks (with_rows h tp row n))
             [Suc (length (blocks h) + i) := Some \<lparr>made_by = ArrayNew, cells = (row i)[j := v]\<rparr>]\<rparr>)"
    using assms unfolding store_def lookup_with_rows_row [OF assms(1)] by simp
  also have "\<dots> = Inr (with_rows h tp (row(i := (row i)[j := v])) n)"
    using eq by (simp add: with_rows_def list_update_append)
  finally show ?thesis .
qed

lemma with_rows_load_ptr_top:
  assumes "i < length tp" and "tp ! i = Ptr p"
  shows "load_ptr (with_rows h tp row n) (length (blocks h)) i = Inr p"
  using assms by (simp add: load_ptr_def load_def lookup_with_rows_top)

lemma filled_update_upt:
  assumes "k < n"
  shows "(map g [0..<k] @ replicate (n - k) z)[k := g k]
         = map g [0..<Suc k] @ replicate (n - Suc k) z"
proof -
  have "replicate (n - k) z = z # replicate (n - Suc k) z"
    using assms by (metis Suc_diff_Suc replicate_Suc)
  moreover have "length (map g [0..<k]) = k" by simp
  ultimately show ?thesis by (simp add: list_update_append)
qed


lemma for_loop_invariant0:
  assumes "I 0 s"
    and "\<And>k t. k < c \<Longrightarrow> I k t \<Longrightarrow> \<exists>t'. body k t = Inr t' \<and> I (Suc k) t'"
  shows "\<exists>t. for_loop 0 c body s = Inr t \<and> I c t"
  using for_loop_invariant [of I 0 s c body] assms by simp

lemma replicate_fill_step:
  assumes "j < l"
  shows "(replicate j z @ replicate (l - j) w)[j := z]
         = replicate (Suc j) z @ replicate (l - Suc j) w"
proof -
  have "replicate (l - j) w = w # replicate (l - Suc j) w"
    using assms by (metis Suc_diff_Suc replicate_Suc)
  then show ?thesis by (simp add: list_update_append replicate_append_same)
qed

lemma two_dimensional_array_rows_loop:
  fixes h :: heap
  assumes "\<not> exhausted h" and "0 \<le> L"
  defines "B \<equiv> length (blocks h)"
  shows "for_loop 0 n
           (\<lambda>i s. and_then (new_array L s) (\<lambda>(r, s'). store s' B i (Ptr r)))
           (with_rows h (replicate n Indet) (\<lambda>i. replicate (nat L) Indet) 0)
         = Inr (with_rows h (map (\<lambda>i. Ptr (Suc (B + i))) [0..<n])
                  (\<lambda>i. replicate (nat L) Indet) n)"
proof -
  let ?P = "\<lambda>i. Ptr (Suc (B + i))"
  let ?row = "\<lambda>i::nat. replicate (nat L) Indet"
  let ?st = "\<lambda>k. with_rows h (map ?P [0..<k] @ replicate (n - k) Indet) ?row k"
  let ?body = "\<lambda>i s. and_then (new_array L s) (\<lambda>(r, s'). store s' B i (Ptr r))"
  have "\<exists>t. for_loop 0 n ?body (?st 0) = Inr t \<and> t = ?st n"
  proof (rule for_loop_invariant0 [where I = "\<lambda>k t. t = ?st k"])
    show "?st 0 = ?st 0" ..
  next
    fix k t assume k: "k < n" and t: "t = ?st k"
    have row: "?row(k := replicate (nat L) Indet) = ?row" by auto
    have na: "new_array L t = Inr (Suc (B + k),
        with_rows h (map ?P [0..<k] @ replicate (n - k) Indet) ?row (Suc k))"
      unfolding t B_def using with_rows_new_array [OF assms(1,2), of _ ?row k]
      by (simp only: row)
    have st: "store (with_rows h (map ?P [0..<k] @ replicate (n - k) Indet) ?row (Suc k))
                B k (?P k)
        = Inr (with_rows h ((map ?P [0..<k] @ replicate (n - k) Indet)[k := ?P k])
                 ?row (Suc k))"
      unfolding B_def using k by (intro with_rows_store_top) simp
    have "?body k t = Inr (?st (Suc k))"
      using k by (simp add: na st filled_update_upt [where g = ?P] del: upt_Suc)
    then show "\<exists>t'. ?body k t = Inr t' \<and> t' = ?st (Suc k)" by simp
  qed
  then show ?thesis by simp
qed

lemma two_dimensional_array_zero_loop:
  fixes h :: heap and n :: nat
  defines "B \<equiv> length (blocks h)"
  defines "tp \<equiv> map (\<lambda>i. Ptr (Suc (length (blocks h) + i))) [0..<n]"
  shows "for_loop 0 n (\<lambda>i s. for_loop 0 l (\<lambda>j t. store2 t B i j 0) s)
           (with_rows h tp (\<lambda>i. replicate l Indet) n)
         = Inr (with_rows h tp (\<lambda>i. replicate l (Dbl 0)) n)"
proof -
  let ?Z = "replicate l (Dbl 0)" and ?U = "replicate l Indet"
  let ?J = "\<lambda>i. with_rows h tp (\<lambda>r. if r < i then ?Z else ?U) n"
  let ?inner = "\<lambda>i s. for_loop 0 l (\<lambda>j t. store2 t B i j 0) s"
  have step: "?inner i (?J i) = Inr (?J (Suc i))" if i: "i < n" for i
  proof -
    let ?K = "\<lambda>j. with_rows h tp
        (\<lambda>r. if r < i then ?Z else if r = i then replicate j (Dbl 0) @ replicate (l - j) Indet
              else ?U) n"
    have "\<exists>t. for_loop 0 l (\<lambda>j t. store2 t B i j 0) (?K 0) = Inr t \<and> t = ?K l"
    proof (rule for_loop_invariant0 [where I = "\<lambda>j t. t = ?K j"])
      show "?K 0 = ?K 0" ..
    next
      fix j t assume j: "j < l" and t: "t = ?K j"
      let ?row = "\<lambda>r. if r < i then ?Z else if r = i
          then replicate j (Dbl 0) @ replicate (l - j) Indet else ?U"
      have lp: "load_ptr t B i = Inr (Suc (B + i))"
        unfolding t B_def using i by (intro with_rows_load_ptr_top) (simp_all add: tp_def)
      have st: "store t (Suc (B + i)) j (Dbl 0)
          = Inr (with_rows h tp (?row(i := (?row i)[j := Dbl 0])) n)"
        unfolding t B_def using i j by (intro with_rows_store_row) simp_all
      have "with_rows h tp (?row(i := (?row i)[j := Dbl 0])) n = ?K (Suc j)"
        using j by (intro with_rows_cong) (simp add: replicate_fill_step)
      then have "store2 t B i j 0 = Inr (?K (Suc j))"
        by (simp add: store2_def lp st)
      then show "\<exists>t'. store2 t B i j 0 = Inr t' \<and> t' = ?K (Suc j)" by simp
    qed
    then have "for_loop 0 l (\<lambda>j t. store2 t B i j 0) (?K 0) = Inr (?K l)" by simp
    moreover have "?K 0 = ?J i" by (intro with_rows_cong) simp
    moreover have "?K l = ?J (Suc i)" by (intro with_rows_cong) auto
    ultimately show ?thesis by simp
  qed
  have "\<exists>t. for_loop 0 n ?inner (?J 0) = Inr t \<and> t = ?J n"
  proof (rule for_loop_invariant0 [where I = "\<lambda>i t. t = ?J i"])
    show "?J 0 = ?J 0" ..
  next
    fix k t assume "k < n" "t = ?J k"
    then show "\<exists>t'. ?inner k t = Inr t' \<and> t' = ?J (Suc k)"
      using step [of k] by simp
  qed
  then have "for_loop 0 n ?inner (?J 0) = Inr (?J n)" by simp
  moreover have "?J 0 = with_rows h tp (\<lambda>i. ?U) n" by (intro with_rows_cong) simp
  moreover have "?J n = with_rows h tp (\<lambda>i. ?Z) n" by (intro with_rows_cong) simp
  ultimately show ?thesis by simp
qed

lemma two_dimensional_array_value:
  assumes "\<not> exhausted h" and "0 \<le> N" and "0 \<le> L"
  shows "two_dimensional_array N L h
         = Inr (length (blocks h),
                with_rows h (map (\<lambda>i. Ptr (Suc (length (blocks h) + i))) [0..<nat N])
                  (\<lambda>i. replicate (nat L) (Dbl 0)) (nat N))"
proof -
  have na: "new_array N h = Inr (length (blocks h),
      with_rows h (replicate (nat N) Indet) (\<lambda>i. replicate (nat L) Indet) 0)"
    using assms(1,2) by (simp add: new_array_def with_rows_def)
  show ?thesis
    unfolding two_dimensional_array_def na
    by (simp add: two_dimensional_array_rows_loop [OF assms(1,3)]
        two_dimensional_array_zero_loop)
qed


lemma dbl_array_with_rows:
  assumes "dbl_array h a xs"
  shows "dbl_array (with_rows h tp row n) a xs"
proof -
  have "a < length (blocks h)" using assms by (rule dbl_array_less)
  then have "lookup (with_rows h tp row n) a = lookup h a" by (rule lookup_with_rows_old)
  then show ?thesis using assms by (simp add: dbl_array_def)
qed

lemma matrix_at_with_rows:
  assumes "matrix_at h a M"
  shows "matrix_at (with_rows h tp row n) a M"
proof -
  from assms obtain b where b: "lookup h a = Some b" "length M \<le> length (cells b)"
    "list_all2 (row_of h) (take (length M) (cells b)) M"
    by (auto simp: matrix_at_def split: option.splits)
  have "a < length (blocks h)" using b(1) by (rule lookup_Some_less)
  then have lk: "lookup (with_rows h tp row n) a = Some b"
    using b(1) by (simp add: lookup_with_rows_old)
  have "row_of (with_rows h tp row n) c xs" if "row_of h c xs" for c xs
    using that by (auto simp: row_of_def dbl_array_with_rows split: val.splits)
  then have "list_all2 (row_of (with_rows h tp row n)) (take (length M) (cells b)) M"
    using b(3) by (rule list_all2_mono [rotated]) 
  then show ?thesis using lk b(2) by (simp add: matrix_at_def)
qed

lemma fold_add_sum:
  "fold (\<lambda>i acc. acc + g i) [0..<n] (z::real) = z + (\<Sum>i<n. g i)"
  by (induction n) simp_all

lemma tensor_entry_loops:
  assumes a: "matrix_at t a A" and s: "matrix_at t sigma S"
    and dims: "length A = N" "length S = N"
      "\<forall>i<N. length (A ! i) = N" "\<forall>i<N. length (S ! i) = N"
    and nm: "n < N" "m < N"
  shows "for_loop 0 N
           (\<lambda>j x.
              and_then (for_loop 0 N
                (\<lambda>i y.
                   and_then (load2 t a m i) (\<lambda>ami.
                   and_then (load2 t sigma j i) (\<lambda>sji.
                   Inr (y + ami * sji)))) 0) (\<lambda>y.
              and_then (load2 t a n j) (\<lambda>anj.
              Inr (x + anj * y)))) 0
         = Inr (\<Sum>j<N. A ! n ! j * (\<Sum>i<N. A ! m ! i * S ! j ! i))"
proof -
  have la: "load2 t a i j = Inr (A ! i ! j)" if "i < N" "j < N" for i j
    using that dims by (intro matrix_at_load2 [OF a]) simp_all
  have ls: "load2 t sigma i j = Inr (S ! i ! j)" if "i < N" "j < N" for i j
    using that dims by (intro matrix_at_load2 [OF s]) simp_all
  have inner: "for_loop 0 N
                (\<lambda>i y.
                   and_then (load2 t a m i) (\<lambda>ami.
                   and_then (load2 t sigma j i) (\<lambda>sji.
                   Inr (y + ami * sji)))) 0
               = Inr (\<Sum>i<N. A ! m ! i * S ! j ! i)" if j: "j < N" for j
  proof -
    have "for_loop 0 N
                (\<lambda>i y.
                   and_then (load2 t a m i) (\<lambda>ami.
                   and_then (load2 t sigma j i) (\<lambda>sji.
                   Inr (y + ami * sji)))) 0
          = Inr (fold (\<lambda>i y. y + A ! m ! i * S ! j ! i) [0..<0 + N] 0)"
      using j nm by (intro for_loop_fold) (simp add: la ls)
    then show ?thesis by (simp add: fold_add_sum)
  qed
  have "for_loop 0 N
           (\<lambda>j x.
              and_then (for_loop 0 N
                (\<lambda>i y.
                   and_then (load2 t a m i) (\<lambda>ami.
                   and_then (load2 t sigma j i) (\<lambda>sji.
                   Inr (y + ami * sji)))) 0) (\<lambda>y.
              and_then (load2 t a n j) (\<lambda>anj.
              Inr (x + anj * y)))) 0
        = Inr (fold (\<lambda>j x. x + A ! n ! j * (\<Sum>i<N. A ! m ! i * S ! j ! i)) [0..<0 + N] 0)"
    using nm by (intro for_loop_fold) (simp add: inner la)
  then show ?thesis by (simp add: fold_add_sum)
qed


lemma matrix_at_result:
  fixes h :: heap
  defines "B \<equiv> length (blocks h)"
  shows "matrix_at (with_rows h (map (\<lambda>i. Ptr (Suc (B + i))) [0..<N])
                     (\<lambda>r. map Dbl (rows r)) N) B (map rows [0..<N])"
proof -
  let ?tp = "map (\<lambda>i. Ptr (Suc (B + i))) [0..<N]"
  let ?h' = "with_rows h ?tp (\<lambda>r. map Dbl (rows r)) N"
  have "row_of ?h' (?tp ! i) (map rows [0..<N] ! i)" if "i < N" for i
    using that lookup_with_rows_row [of i N h ?tp "\<lambda>r. map Dbl (rows r)"]
    by (simp add: row_of_def dbl_array_def B_def)
  then have "list_all2 (row_of ?h') ?tp (map rows [0..<N])"
    by (simp add: list_all2_conv_all_nth)
  then show ?thesis
    unfolding matrix_at_def B_def lookup_with_rows_top by (simp add: B_def)
qed

lemma tensor_loops:
  fixes h :: heap
  assumes a: "matrix_at h a A" and s: "matrix_at h sigma S"
    and dims: "length A = N" "length S = N"
      "\<forall>i<N. length (A ! i) = N" "\<forall>i<N. length (S ! i) = N"
  defines "B \<equiv> length (blocks h)"
  defines "tp \<equiv> map (\<lambda>i. Ptr (Suc (length (blocks h) + i))) [0..<N]"
  defines "E \<equiv> \<lambda>n m. (\<Sum>j<N. A ! n ! j * (\<Sum>i<N. A ! m ! i * S ! j ! i))"
  shows "for_loop 0 N
       (\<lambda>n s. for_loop 0 N
          (\<lambda>m t.
             and_then (for_loop 0 N
               (\<lambda>j x.
                  and_then (for_loop 0 N
                    (\<lambda>i y.
                       and_then (load2 t a m i) (\<lambda>ami.
                       and_then (load2 t sigma j i) (\<lambda>sji.
                       Inr (y + ami * sji)))) 0) (\<lambda>y.
                  and_then (load2 t a n j) (\<lambda>anj.
                  Inr (x + anj * y)))) 0) (\<lambda>x.
             store2 t B n m x)) s)
       (with_rows h tp (\<lambda>r. replicate N (Dbl 0)) N)
     = Inr (with_rows h tp (\<lambda>r. map Dbl (map (E r) [0..<N])) N)"
proof -
  let ?Z = "replicate N (Dbl 0)"
  let ?J = "\<lambda>n. with_rows h tp (\<lambda>r. if r < n then map Dbl (map (E r) [0..<N]) else ?Z) N"
  let ?entry = "\<lambda>n m t. for_loop 0 N
               (\<lambda>j x.
                  and_then (for_loop 0 N
                    (\<lambda>i y.
                       and_then (load2 t a m i) (\<lambda>ami.
                       and_then (load2 t sigma j i) (\<lambda>sji.
                       Inr (y + ami * sji)))) 0) (\<lambda>y.
                  and_then (load2 t a n j) (\<lambda>anj.
                  Inr (x + anj * y)))) 0"
  let ?mbody = "\<lambda>n m t. and_then (?entry n m t) (\<lambda>x. store2 t B n m x)"
  let ?inner = "\<lambda>n s. for_loop 0 N (?mbody n) s"
  have step: "?inner n (?J n) = Inr (?J (Suc n))" if n: "n < N" for n
  proof -
    let ?g = "\<lambda>m. Dbl (E n m)"
    let ?K = "\<lambda>m. with_rows h tp
        (\<lambda>r. if r < n then map Dbl (map (E r) [0..<N])
              else if r = n then map ?g [0..<m] @ replicate (N - m) (Dbl 0)
              else ?Z) N"
    have "\<exists>t. for_loop 0 N (?mbody n) (?K 0) = Inr t \<and> t = ?K N"
    proof (rule for_loop_invariant0 [where I = "\<lambda>m t. t = ?K m"])
      show "?K 0 = ?K 0" ..
    next
      fix m t assume m: "m < N" and t: "t = ?K m"
      let ?row = "\<lambda>r. if r < n then map Dbl (map (E r) [0..<N])
              else if r = n then map ?g [0..<m] @ replicate (N - m) (Dbl 0)
              else ?Z"
      have ma: "matrix_at t a A" "matrix_at t sigma S"
        unfolding t using a s by (simp_all add: matrix_at_with_rows)
      have en: "?entry n m t = Inr (E n m)"
        unfolding E_def by (rule tensor_entry_loops [OF ma dims n m])
      have lp: "load_ptr t B n = Inr (Suc (B + n))"
        unfolding t B_def using n by (intro with_rows_load_ptr_top) (simp_all add: tp_def)
      have st: "store t (Suc (B + n)) m (Dbl (E n m))
          = Inr (with_rows h tp (?row(n := (?row n)[m := ?g m])) N)"
        unfolding t B_def using n m by (intro with_rows_store_row) simp_all
      have "with_rows h tp (?row(n := (?row n)[m := ?g m])) N = ?K (Suc m)"
        using m by (intro with_rows_cong)
          (simp add: filled_update_upt [where g = ?g] del: upt_Suc)
      then have "?mbody n m t = Inr (?K (Suc m))"
        by (simp add: en store2_def lp st)
      then show "\<exists>t'. ?mbody n m t = Inr t' \<and> t' = ?K (Suc m)" by simp
    qed
    then have "for_loop 0 N (?mbody n) (?K 0) = Inr (?K N)" by simp
    moreover have "?K 0 = ?J n" by (intro with_rows_cong) simp
    moreover have "?K N = ?J (Suc n)"
      by (intro with_rows_cong) (auto simp: comp_def less_Suc_eq)
    ultimately show ?thesis by simp
  qed
  have "\<exists>t. for_loop 0 N ?inner (?J 0) = Inr t \<and> t = ?J N"
  proof (rule for_loop_invariant0 [where I = "\<lambda>n t. t = ?J n"])
    show "?J 0 = ?J 0" ..
  next
    fix k t assume "k < N" "t = ?J k"
    then show "\<exists>t'. ?inner k t = Inr t' \<and> t' = ?J (Suc k)"
      using step [of k] by simp
  qed
  then have "for_loop 0 N ?inner (?J 0) = Inr (?J N)" by simp
  moreover have "?J 0 = with_rows h tp (\<lambda>r. ?Z) N" by (intro with_rows_cong) simp
  moreover have "?J N = with_rows h tp (\<lambda>r. map Dbl (map (E r) [0..<N])) N"
    by (intro with_rows_cong) simp
  ultimately show ?thesis by simp
qed

text \<open>
  C4. For \<open>ndim \<ge> 1\<close> and \<open>ndim x ndim\<close> matrices \<open>a\<close> and \<open>sigma\<close>,
  \<open>tensor_transformation a sigma ndim\<close> returns a newly allocated \<open>ndim x ndim\<close> array
  whose entry \<open>(n, m)\<close> is the sum over \<open>j\<close> of \<open>a[n][j]\<close> times the sum over \<open>i\<close> of
  \<open>a[m][i] * sigma[j][i]\<close>; when \<open>a\<close> is the identity the result equals \<open>sigma\<close>. Newly
  allocated: the result was not live before the call and every block that was live is
  unchanged.
\<close>

theorem tensor_transformation_result:
  assumes "1 \<le> ndim" and "\<not> exhausted h"
    and "matrix_at h a A" and "matrix_at h sigma S"
    and "length A = nat ndim" and "length S = nat ndim"
    and "\<forall>i<nat ndim. length (A ! i) = nat ndim"
    and "\<forall>i<nat ndim. length (S ! i) = nat ndim"
  shows "\<exists>res h' R.
           tensor_transformation a sigma ndim h = Inr (res, h')
         \<and> res \<notin> live h \<and> (\<forall>b\<in>live h. lookup h' b = lookup h b)
         \<and> matrix_at h' res R \<and> length R = nat ndim
         \<and> (\<forall>n<nat ndim. length (R ! n) = nat ndim)
         \<and> (\<forall>n<nat ndim. \<forall>m<nat ndim.
               R ! n ! m = (\<Sum>j<nat ndim. A ! n ! j * (\<Sum>i<nat ndim. A ! m ! i * S ! j ! i)))
         \<and> ((\<forall>n<nat ndim. \<forall>m<nat ndim. A ! n ! m = (if n = m then 1 else 0)) \<longrightarrow> R = S)"
proof -
  define N where "N = nat ndim"
  define B where "B = length (blocks h)"
  define tp where "tp = map (\<lambda>i. Ptr (Suc (length (blocks h) + i))) [0..<N]"
  define E where "E = (\<lambda>n m. (\<Sum>j<N. A ! n ! j * (\<Sum>i<N. A ! m ! i * S ! j ! i)))"
  define R where "R = map (\<lambda>r. map (E r) [0..<N]) [0..<N]"
  define h' where "h' = with_rows h tp (\<lambda>r. map Dbl (map (E r) [0..<N])) N"
  have dims: "length A = N" "length S = N"
    "\<forall>i<N. length (A ! i) = N" "\<forall>i<N. length (S ! i) = N"
    using assms(5-8) by (simp_all add: N_def)
  have nd: "0 \<le> ndim" using assms(1) by simp
  have alloc: "two_dimensional_array ndim ndim h
      = Inr (B, with_rows h tp (\<lambda>r. replicate N (Dbl 0)) N)"
    unfolding B_def tp_def N_def by (rule two_dimensional_array_value [OF assms(2) nd nd])
  have loops: "for_loop 0 N
       (\<lambda>n s. for_loop 0 N
          (\<lambda>m t.
             and_then (for_loop 0 N
               (\<lambda>j x.
                  and_then (for_loop 0 N
                    (\<lambda>i y.
                       and_then (load2 t a m i) (\<lambda>ami.
                       and_then (load2 t sigma j i) (\<lambda>sji.
                       Inr (y + ami * sji)))) 0) (\<lambda>y.
                  and_then (load2 t a n j) (\<lambda>anj.
                  Inr (x + anj * y)))) 0) (\<lambda>x.
             store2 t B n m x)) s)
       (with_rows h tp (\<lambda>r. replicate N (Dbl 0)) N) = Inr h'"
    unfolding B_def tp_def E_def h'_def by (rule tensor_loops [OF assms(3,4) dims])
  have 1: "tensor_transformation a sigma ndim h = Inr (B, h')"
    unfolding tensor_transformation_def alloc using loops by (simp add: N_def)
  have 2: "B \<notin> live h" by (simp add: live_def B_def)
  have 3: "\<forall>b\<in>live h. lookup h' b = lookup h b"
  proof
    fix b assume "b \<in> live h"
    then have "b < length (blocks h)" by (auto simp: live_def dest: lookup_Some_less)
    then show "lookup h' b = lookup h b" unfolding h'_def by (rule lookup_with_rows_old)
  qed
  have 4: "matrix_at h' B R"
    unfolding h'_def R_def B_def tp_def by (rule matrix_at_result)
  have 5: "length R = N" by (simp add: R_def)
  have 6: "\<forall>n<N. length (R ! n) = N" by (simp add: R_def)
  have 7: "\<forall>n<N. \<forall>m<N. R ! n ! m = E n m" by (simp add: R_def)
  have 8: "R = S" if ident: "\<forall>n<N. \<forall>m<N. A ! n ! m = (if n = m then 1 else 0)"
  proof (rule nth_equalityI)
    show "length R = length S" using 5 dims(2) by simp
  next
    fix n assume "n < length R"
    then have n: "n < N" using 5 by simp
    show "R ! n = S ! n"
    proof (rule nth_equalityI)
      show "length (R ! n) = length (S ! n)" using 6 dims(4) n by simp
    next
      fix m assume "m < length (R ! n)"
      then have m: "m < N" using 6 n by simp
      have inner: "(\<Sum>i<N. A ! m ! i * S ! j ! i) = S ! j ! m" for j
      proof -
        have "(\<Sum>i<N. A ! m ! i * S ! j ! i) = (\<Sum>i<N. if m = i then S ! j ! i else 0)"
          using ident m by (intro sum.cong) simp_all
        also have "\<dots> = S ! j ! m" using m by simp
        finally show ?thesis .
      qed
      have "E n m = (\<Sum>j<N. A ! n ! j * S ! j ! m)" by (simp add: E_def inner)
      also have "\<dots> = (\<Sum>j<N. if n = j then S ! j ! m else 0)"
        using ident n by (intro sum.cong) simp_all
      also have "\<dots> = S ! n ! m" using n by simp
      finally show "R ! n ! m = S ! n ! m" using 7 n m by simp
    qed
  qed
  show ?thesis
    using 1 2 3 4 5 6 7 8 unfolding N_def E_def by blast
qed

theorem tensor_transformation_witness:
  "tensor_transformation 0 3 2
     \<lparr>blocks = [Some \<lparr>made_by = ArrayNew, cells = [Ptr 1, Ptr 2]\<rparr>,
                Some \<lparr>made_by = ArrayNew, cells = [Dbl 1, Dbl 0]\<rparr>,
                Some \<lparr>made_by = ArrayNew, cells = [Dbl 0, Dbl 1]\<rparr>,
                Some \<lparr>made_by = ArrayNew, cells = [Ptr 4, Ptr 5]\<rparr>,
                Some \<lparr>made_by = ArrayNew, cells = [Dbl 5, Dbl 6]\<rparr>,
                Some \<lparr>made_by = ArrayNew, cells = [Dbl 7, Dbl 8]\<rparr>],
      exhausted = False\<rparr>
   = Inr (6,
     \<lparr>blocks = [Some \<lparr>made_by = ArrayNew, cells = [Ptr 1, Ptr 2]\<rparr>,
                Some \<lparr>made_by = ArrayNew, cells = [Dbl 1, Dbl 0]\<rparr>,
                Some \<lparr>made_by = ArrayNew, cells = [Dbl 0, Dbl 1]\<rparr>,
                Some \<lparr>made_by = ArrayNew, cells = [Ptr 4, Ptr 5]\<rparr>,
                Some \<lparr>made_by = ArrayNew, cells = [Dbl 5, Dbl 6]\<rparr>,
                Some \<lparr>made_by = ArrayNew, cells = [Dbl 7, Dbl 8]\<rparr>,
                Some \<lparr>made_by = ArrayNew, cells = [Ptr 7, Ptr 8]\<rparr>,
                Some \<lparr>made_by = ArrayNew, cells = [Dbl 5, Dbl 6]\<rparr>,
                Some \<lparr>made_by = ArrayNew, cells = [Dbl 7, Dbl 8]\<rparr>],
      exhausted = False\<rparr>)
  \<and> tensor_transformation 3 0 2
     \<lparr>blocks = [Some \<lparr>made_by = ArrayNew, cells = [Ptr 1, Ptr 2]\<rparr>,
                Some \<lparr>made_by = ArrayNew, cells = [Dbl 1, Dbl 0]\<rparr>,
                Some \<lparr>made_by = ArrayNew, cells = [Dbl 0, Dbl 1]\<rparr>,
                Some \<lparr>made_by = ArrayNew, cells = [Ptr 4, Ptr 5]\<rparr>,
                Some \<lparr>made_by = ArrayNew, cells = [Dbl 5, Dbl 6]\<rparr>,
                Some \<lparr>made_by = ArrayNew, cells = [Dbl 7, Dbl 8]\<rparr>],
      exhausted = False\<rparr>
   = Inr (6,
     \<lparr>blocks = [Some \<lparr>made_by = ArrayNew, cells = [Ptr 1, Ptr 2]\<rparr>,
                Some \<lparr>made_by = ArrayNew, cells = [Dbl 1, Dbl 0]\<rparr>,
                Some \<lparr>made_by = ArrayNew, cells = [Dbl 0, Dbl 1]\<rparr>,
                Some \<lparr>made_by = ArrayNew, cells = [Ptr 4, Ptr 5]\<rparr>,
                Some \<lparr>made_by = ArrayNew, cells = [Dbl 5, Dbl 6]\<rparr>,
                Some \<lparr>made_by = ArrayNew, cells = [Dbl 7, Dbl 8]\<rparr>,
                Some \<lparr>made_by = ArrayNew, cells = [Ptr 7, Ptr 8]\<rparr>,
                Some \<lparr>made_by = ArrayNew, cells = [Dbl 61, Dbl 83]\<rparr>,
                Some \<lparr>made_by = ArrayNew, cells = [Dbl 83, Dbl 113]\<rparr>],
      exhausted = False\<rparr>)"
  using tensor_transformation_result
    [of 2 "\<lparr>blocks = [Some \<lparr>made_by = ArrayNew, cells = [Ptr 1, Ptr 2]\<rparr>,
                Some \<lparr>made_by = ArrayNew, cells = [Dbl 1, Dbl 0]\<rparr>,
                Some \<lparr>made_by = ArrayNew, cells = [Dbl 0, Dbl 1]\<rparr>,
                Some \<lparr>made_by = ArrayNew, cells = [Ptr 4, Ptr 5]\<rparr>,
                Some \<lparr>made_by = ArrayNew, cells = [Dbl 5, Dbl 6]\<rparr>,
                Some \<lparr>made_by = ArrayNew, cells = [Dbl 7, Dbl 8]\<rparr>],
      exhausted = False\<rparr>" 0 "[[1, 0], [0, 1]]" 3 "[[5, 6], [7, 8]]"]
  by (simp add: tensor_transformation_def two_dimensional_array_def new_array_def
        store_def store2_def load2_def load_ptr_def load_dbl_def load_def lookup_def
        eval_nat_numeral)

end
